theory Spec2Isabelle
  imports Main "HOL-Library.Sublist" "HOL-Library.Multiset"
begin

text \<open>
  A shallow embedding of the telemetry aggregation layer of the OpenClaw agent dashboard:
  the process bridge, the per-route cache, the two status derivers, the cron job
  summaries, the activity feed with its query, and the redactor of the configuration
  view. The definitions follow the TypeScript sources function by function; the
  properties proved of them follow the definitions.
\<close>

section \<open>Strings\<close>

text \<open>
  JavaScript strings are modelled as \<open>string\<close> (lists of 8-bit characters): the model
  covers ASCII text, where \<open>length\<close>, \<open>toLowerCase\<close>, \<open>trim\<close> and the
  case-insensitive regular expressions of the sources act character by character.
\<close>

definition toLowerChar :: "char \<Rightarrow> char" where
  "toLowerChar c =
     (let n = (of_char c :: nat) in if 65 \<le> n \<and> n \<le> 90 then char_of (n + 32) else c)"

definition toLowerCase :: "string \<Rightarrow> string" where
  "toLowerCase s = map toLowerChar s"

text \<open>\<open>s.includes(sub)\<close>: \<open>sub\<close> occurs in \<open>s\<close> at some position.\<close>

fun str_includes :: "string \<Rightarrow> string \<Rightarrow> bool" where
  "str_includes [] sub = (sub = [])"
| "str_includes (c # cs) sub = (take (length sub) (c # cs) = sub \<or> str_includes cs sub)"

text \<open>\<open>s.startsWith(p)\<close>.\<close>

definition startsWith :: "string \<Rightarrow> string \<Rightarrow> bool" where
  "startsWith s p = (take (length p) s = p)"

text \<open>The white space of \<open>\s\<close> and of \<open>trim\<close> within ASCII: tab, line feed, vertical tab,
  form feed, carriage return and space.\<close>

definition isSpace :: "char \<Rightarrow> bool" where
  "isSpace c = (let n = (of_char c :: nat) in (9 \<le> n \<and> n \<le> 13) \<or> n = 32)"

definition trim :: "string \<Rightarrow> string" where
  "trim s = rev (dropWhile isSpace (rev (dropWhile isSpace s)))"

text \<open>The word characters of \<open>\w\<close>: letters, digits and the underscore.\<close>

definition isWordChar :: "char \<Rightarrow> bool" where
  "isWordChar c =
     (let n = (of_char c :: nat) in
        (48 \<le> n \<and> n \<le> 57) \<or> (65 \<le> n \<and> n \<le> 90) \<or> (97 \<le> n \<and> n \<le> 122) \<or> n = 95)"

section \<open>Loosely typed snapshots and the redactor\<close>

text \<open>
  A raw snapshot is a JSON tree. An object is an association list in property order
  (the order of \<open>Object.entries\<close>).
\<close>

datatype json =
    JNull
  | JBool bool
  | JNum int
  | JStr string
  | JArr "json list"
  | JObj "(string \<times> json) list"

definition REDACTED :: string where
  "REDACTED = ''[REDACTED]''"

text \<open>The alternatives of \<open>/token|secret|key|password|auth|bearer|credential/i\<close>, tested
  on string values, and of \<open>/token|secret|key|password|auth|bearer|credential|apikey/i\<close>,
  tested on keys.\<close>

definition valueTerms :: "string list" where
  "valueTerms = [''token'', ''secret'', ''key'', ''password'', ''auth'', ''bearer'', ''credential'']"

definition keyTerms :: "string list" where
  "keyTerms =
     [''token'', ''secret'', ''key'', ''password'', ''auth'', ''bearer'', ''credential'', ''apikey'']"

text \<open>\<open>/t1|t2|.../i.test(s)\<close>: some alternative occurs in \<open>s\<close>, letter case ignored.\<close>

definition testTerms :: "string list \<Rightarrow> string \<Rightarrow> bool" where
  "testTerms ts s = list_ex (\<lambda>t. str_includes (toLowerCase s) t) ts"

text \<open>\<open>/^[0-9a-f]{20,}$/i.test(s)\<close>: the whole string consists of at least twenty
  characters, each in \<open>0-9\<close> or \<open>a-f\<close> once its case is ignored.\<close>

definition isHexChar :: "char \<Rightarrow> bool" where
  "isHexChar c =
     (let n = (of_char (toLowerChar c) :: nat) in (48 \<le> n \<and> n \<le> 57) \<or> (97 \<le> n \<and> n \<le> 102))"

definition testHex :: "string \<Rightarrow> bool" where
  "testHex s = (20 \<le> length s \<and> list_all isHexChar s)"

text \<open>
  \<open>result[k] = x\<close> on the object \<open>result\<close>, which starts as the empty object literal:
  the properties it adds to \<open>result\<close>. The keys that \<open>Object.entries\<close> yields are
  distinct, so the property is a new one. For the key \<open>__proto__\<close> the assignment runs
  the prototype setter of plain objects and adds no property.
\<close>

definition assign :: "string \<Rightarrow> json \<Rightarrow> (string \<times> json) list" where
  "assign k x = (if k = ''__proto__'' then [] else [(k, x)])"

text \<open>The value of \<open>redact\<close> is the tree of own properties of the value it returns,
  which is what \<open>Object.entries\<close> and the JSON response show of it.\<close>

fun redact :: "json \<Rightarrow> json" where
  "redact (JStr s) =
     (if testTerms valueTerms s \<and> 8 < length s then JStr REDACTED
      else if testHex s then JStr REDACTED
      else JStr s)"
| "redact (JArr xs) = JArr (map redact xs)"
| "redact (JObj kvs) =
     JObj (concat (map (\<lambda>(k, v). if testTerms keyTerms k then assign k (JStr REDACTED)
                                  else assign k (redact v)) kvs))"
| "redact v = v"






text \<open>The keys of an object, and objects none of whose own keys is \<open>__proto__\<close>.\<close>

definition keysOf :: "(string \<times> json) list \<Rightarrow> string list" where
  "keysOf kvs = map fst kvs"

definition plainKeys :: "(string \<times> json) list \<Rightarrow> bool" where
  "plainKeys kvs = (''__proto__'' \<notin> set (keysOf kvs))"

text \<open>Sample objects: a configuration fragment, and the object that \<open>JSON.parse\<close> makes
  of \<open>{"__proto__": 1, "hostname": "box1"}\<close>.\<close>

definition sampleConfig :: "(string \<times> json) list" where
  "sampleConfig =
     [(''apiKey'', JStr ''abc123''), (''hostname'', JStr ''box1''),
      (''limits'', JObj [(''authToken'', JNum 7), (''digest'', JStr ''0123456789abcdef0123456789abcdef'')])]"

definition protoObject :: "(string \<times> json) list" where
  "protoObject = [(''__proto__'', JNum 1), (''hostname'', JStr ''box1'')]"


section \<open>Time values and exceptions\<close>

text \<open>
  The sources throw and catch JavaScript exceptions; a function that may throw returns
  \<open>jsError + 'a\<close> with \<open>Inl\<close> for the exception.

  A point in time is its time value: the milliseconds since the epoch, an \<open>int\<close>. The
  string that \<open>toISOString\<close> returns is represented by the time value it denotes.
  \<open>new Date(ms).toISOString()\<close> throws a \<open>RangeError\<close> when \<open>ms\<close> lies outside the
  range of dates.
\<close>

datatype jsError = RangeError | TypeError | SyntaxError

definition maxTimeValue :: int where
  "maxTimeValue = 8640000000000000"

definition toISOString :: "int \<Rightarrow> jsError + int" where
  "toISOString ms = (if \<bar>ms\<bar> \<le> maxTimeValue then Inr ms else Inl RangeError)"

text \<open>\<open>Array.prototype.map\<close> with a callback that may throw: the first exception
  leaves the loop.\<close>

fun mapE :: "('a \<Rightarrow> 'e + 'b) \<Rightarrow> 'a list \<Rightarrow> 'e + 'b list" where
  "mapE f [] = Inr []"
| "mapE f (x # xs) =
     (case f x of
        Inl e \<Rightarrow> Inl e
      | Inr y \<Rightarrow> (case mapE f xs of Inl e \<Rightarrow> Inl e | Inr ys \<Rightarrow> Inr (y # ys)))"

section \<open>The status snapshot\<close>

text \<open>
  The fields of the \<open>openclaw status --json\<close> snapshot that the routes read, typed as
  the routes cast them; every field is optional. A field name carries the prefix of its
  record where the plain name is used by several records.
\<close>

record gatewaySelf =
  gs_version :: "string option"
  gs_host :: "string option"

record gatewayInfo =
  gw_self :: "gatewaySelf option"
  gw_reachable :: "bool option"
  gw_mode :: "string option"

record registryInfo =
  latestVersion :: "string option"

record updateInfo =
  up_registry :: "registryInfo option"

record osInfo =
  os_label :: "string option"

record memoryInfo =
  mem_files :: "int option"
  mem_chunks :: "int option"
  mem_backend :: "string option"

record recentSession =
  rs_key :: string
  rs_updatedAt :: int

record sessionsInfo =
  recent :: "recentSession list option"

record heartbeatAgent =
  hb_agentId :: string
  hb_enabled :: bool
  hb_every :: string

record heartbeatInfo =
  hb_agents :: "heartbeatAgent list option"

record statusData =
  sd_gateway :: "gatewayInfo option"
  sd_update :: "updateInfo option"
  sd_os :: "osInfo option"
  sd_memory :: "memoryInfo option"
  sd_sessions :: "sessionsInfo option"
  sd_heartbeat :: "heartbeatInfo option"
  sd_channelSummary :: "string list option"

text \<open>\<open>statusData?.f ?? {}\<close> and \<open>section.f ?? {}\<close>: an absent section reads as the
  empty object, all of whose fields are absent.\<close>

definition noGatewaySelf :: gatewaySelf where
  "noGatewaySelf = \<lparr>gs_version = None, gs_host = None\<rparr>"

definition noGateway :: gatewayInfo where
  "noGateway = \<lparr>gw_self = None, gw_reachable = None, gw_mode = None\<rparr>"

definition noRegistry :: registryInfo where
  "noRegistry = \<lparr>latestVersion = None\<rparr>"

definition noUpdate :: updateInfo where
  "noUpdate = \<lparr>up_registry = None\<rparr>"

definition noOs :: osInfo where
  "noOs = \<lparr>os_label = None\<rparr>"

definition noMemory :: memoryInfo where
  "noMemory = \<lparr>mem_files = None, mem_chunks = None, mem_backend = None\<rparr>"

definition noSessions :: sessionsInfo where
  "noSessions = \<lparr>recent = None\<rparr>"

definition noHeartbeat :: heartbeatInfo where
  "noHeartbeat = \<lparr>hb_agents = None\<rparr>"

text \<open>\<open>statusData?.f\<close> on a snapshot that may be \<open>null\<close>, and \<open>x ?? d\<close>.\<close>

definition field :: "('r \<Rightarrow> 'a option) \<Rightarrow> 'r option \<Rightarrow> 'a option" where
  "field f r = (case r of None \<Rightarrow> None | Some x \<Rightarrow> f x)"

definition orElse :: "'a option \<Rightarrow> 'a \<Rightarrow> 'a" where
  "orElse x d = (case x of None \<Rightarrow> d | Some v \<Rightarrow> v)"

text \<open>The values the routes read from the \<open>os\<close> and \<open>process\<close> modules, as the
  expressions of the sources compute them from the host: process and system uptime in
  whole seconds, used and total memory in MB, the load-derived CPU percentage and the
  platform name.\<close>

record host =
  processUptime :: int
  osUptime :: int
  usedMemMb :: int
  totalMemMb :: int
  cpuPercent :: int
  platform :: string

datatype health = healthy | degraded | unhealthy

section \<open>Status route, probe based (src/app/api/status/route.ts)\<close>

record probeInfo =
  ok :: "bool option"

record channelInfo =
  probe :: "probeInfo option"
  configured :: "bool option"

record healthData =
  hd_channels :: "(string \<times> channelInfo) list option"

record parsedHealth =
  allProbesOk :: bool
  anyProbeOk :: bool
  channels :: "string list"

text \<open>\<open>channels[name]?.probe?.ok\<close>.\<close>

definition probeOkOf :: "channelInfo option \<Rightarrow> bool option" where
  "probeOkOf c = field ok (field probe c)"

definition parseHealth :: "healthData option \<Rightarrow> parsedHealth" where
  "parseHealth healthData =
     (case healthData of
        None \<Rightarrow> \<lparr>allProbesOk = False, anyProbeOk = False, channels = []\<rparr>
      | Some h \<Rightarrow>
          (let chans = orElse (hd_channels h) [];
               channelNames = map fst chans;
               probeResults = map (\<lambda>name. probeOkOf (map_of chans name) = Some True) channelNames;
               allOk = (0 < length probeResults \<and> list_all (\<lambda>b. b) probeResults);
               anyOk = list_ex (\<lambda>b. b) probeResults;
               configuredAndProbeOk =
                 filter (\<lambda>name. field configured (map_of chans name) = Some True
                                \<and> probeOkOf (map_of chans name) = Some True) channelNames
           in \<lparr>allProbesOk = allOk, anyProbeOk = anyOk, channels = configuredAndProbeOk\<rparr>))"

definition deriveHealth :: "parsedHealth \<Rightarrow> health" where
  "deriveHealth h =
     (if allProbesOk h then healthy else if anyProbeOk h then degraded else unhealthy)"

record systemStatus =
  version :: string
  uptime :: int
  health :: health
  activeChannels :: "string list"
  lastHeartbeat :: int
  memoryUsageMb :: int
  st_cpuPercent :: int
  memoryFiles :: int
  memoryChunks :: int
  memoryBackend :: string
  st_platform :: string
  heartbeatEvery :: string
  gatewayVersion :: string
  gatewayReachable :: bool

text \<open>The placeholder \<open>'\<emdash>'\<close> of the sources (a dash) is written \<open>''-''\<close>.\<close>

definition dash :: string where
  "dash = ''-''"

text \<open>\<open>lastUpdated ? new Date(lastUpdated).toISOString() : new Date().toISOString()\<close>
  for the first recent session; \<open>now\<close> is the clock.\<close>

definition lastHeartbeatOf :: "int \<Rightarrow> recentSession list \<Rightarrow> jsError + int" where
  "lastHeartbeatOf now recentSessions =
     (case recentSessions of
        [] \<Rightarrow> toISOString now
      | s # _ \<Rightarrow> if rs_updatedAt s \<noteq> 0 then toISOString (rs_updatedAt s) else toISOString now)"

definition heartbeatEveryOf :: "heartbeatAgent list \<Rightarrow> string" where
  "heartbeatEveryOf agents =
     (case find (\<lambda>a. hb_agentId a = ''main'') agents of None \<Rightarrow> dash | Some a \<Rightarrow> hb_every a)"

definition buildStatus ::
  "host \<Rightarrow> int \<Rightarrow> statusData option \<Rightarrow> healthData option \<Rightarrow> jsError + systemStatus" where
  "buildStatus h now statusData healthData =
     (let hl = parseHealth healthData;
          gateway = orElse (field sd_gateway statusData) noGateway;
          gatewaySelf = orElse (gw_self gateway) noGatewaySelf;
          update = orElse (field sd_update statusData) noUpdate;
          registry = orElse (up_registry update) noRegistry;
          osData = orElse (field sd_os statusData) noOs;
          memData = orElse (field sd_memory statusData) noMemory;
          sessions = orElse (field sd_sessions statusData) noSessions;
          heartbeat = orElse (field sd_heartbeat statusData) noHeartbeat;
          heartbeatAgents = orElse (hb_agents heartbeat) [];
          ver = (case latestVersion registry of Some v \<Rightarrow> v | None \<Rightarrow> orElse (gs_version gatewaySelf) dash);
          recentSessions = orElse (recent sessions) []
      in case lastHeartbeatOf now recentSessions of
           Inl e \<Rightarrow> Inl e
         | Inr lastHb \<Rightarrow>
             Inr \<lparr>version = ver,
                  uptime = processUptime h,
                  health = deriveHealth hl,
                  activeChannels = channels hl,
                  lastHeartbeat = lastHb,
                  memoryUsageMb = usedMemMb h,
                  st_cpuPercent = cpuPercent h,
                  memoryFiles = orElse (mem_files memData) 0,
                  memoryChunks = orElse (mem_chunks memData) 0,
                  memoryBackend = orElse (mem_backend memData) ''builtin'',
                  st_platform = orElse (os_label osData) (platform h),
                  heartbeatEvery = heartbeatEveryOf heartbeatAgents,
                  gatewayVersion = orElse (gs_version gatewaySelf) dash,
                  gatewayReachable = orElse (gw_reachable gateway) False\<rparr>)"


section \<open>Status route, channel-summary based (second status route, stored with src/app/api/daily/route.ts)\<close>

text \<open>\<open>/^\w[\w\s]*?:\s+configured/.test(t)\<close>: a word character, then word characters
  and white space up to the first colon, white space after the colon, then the word
  \<open>configured\<close>. Neither \<open>\w\<close> nor \<open>\s\<close> matches a colon and \<open>configured\<close> does not
  start with white space, so the match is determined from left to right.\<close>

definition configuredLine :: "string \<Rightarrow> bool" where
  "configuredLine t =
     (case t of
        [] \<Rightarrow> False
      | c # cs \<Rightarrow>
          isWordChar c \<and>
          (case dropWhile (\<lambda>x. isWordChar x \<or> isSpace x) cs of
             [] \<Rightarrow> False
           | d # ds \<Rightarrow>
               d = CHR '':'' \<and>
               (case ds of
                  [] \<Rightarrow> False
                | w # _ \<Rightarrow> isSpace w \<and> startsWith (dropWhile isSpace ds) ''configured'')))"

text \<open>\<open>line.split(':')[0]\<close>: the text before the first colon.\<close>

definition beforeColon :: "string \<Rightarrow> string" where
  "beforeColon line = takeWhile (\<lambda>c. c \<noteq> CHR '':'') line"

definition parseChannelSummary :: "string list \<Rightarrow> string list" where
  "parseChannelSummary channelSummary =
     map (\<lambda>line. toLowerCase (trim (beforeColon line)))
       (filter (\<lambda>line. configuredLine (trim line)) channelSummary)"

record systemStatus2 = systemStatus +
  st_totalMemMb :: int

definition buildStatus2 :: "host \<Rightarrow> int \<Rightarrow> statusData option \<Rightarrow> jsError + systemStatus2" where
  "buildStatus2 h now statusData =
     (let gateway = orElse (field sd_gateway statusData) noGateway;
          gatewaySelf = orElse (gw_self gateway) noGatewaySelf;
          update = orElse (field sd_update statusData) noUpdate;
          registry = orElse (up_registry update) noRegistry;
          osData = orElse (field sd_os statusData) noOs;
          memData = orElse (field sd_memory statusData) noMemory;
          sessions = orElse (field sd_sessions statusData) noSessions;
          heartbeat = orElse (field sd_heartbeat statusData) noHeartbeat;
          heartbeatAgents = orElse (hb_agents heartbeat) [];
          channelSummary = orElse (field sd_channelSummary statusData) [];
          ver = (case gs_version gatewaySelf of Some v \<Rightarrow> v | None \<Rightarrow> orElse (latestVersion registry) dash);
          reachable = orElse (gw_reachable gateway) False;
          active = parseChannelSummary channelSummary;
          hl = (if \<not> reachable then unhealthy
                else if 0 < length active then healthy
                else degraded);
          recentSessions = orElse (recent sessions) []
      in case lastHeartbeatOf now recentSessions of
           Inl e \<Rightarrow> Inl e
         | Inr lastHb \<Rightarrow>
             Inr \<lparr>version = ver,
                  uptime = osUptime h,
                  health = hl,
                  activeChannels = active,
                  lastHeartbeat = lastHb,
                  memoryUsageMb = usedMemMb h,
                  st_cpuPercent = cpuPercent h,
                  memoryFiles = orElse (mem_files memData) 0,
                  memoryChunks = orElse (mem_chunks memData) 0,
                  memoryBackend = orElse (mem_backend memData) ''builtin'',
                  st_platform = orElse (os_label osData) (platform h),
                  heartbeatEvery = heartbeatEveryOf heartbeatAgents,
                  gatewayVersion = orElse (gs_version gatewaySelf) dash,
                  gatewayReachable = reachable,
                  st_totalMemMb = totalMemMb h\<rparr>)"

section \<open>The in-process cache of a route (GET of src/app/api/status/route.ts)\<close>








section \<open>The process bridge (runCLI of the routes, execJSON of src/app/api/activity/route.ts)\<close>

text \<open>What \<open>execSync\<close> does: it returns the captured standard output of a process that
  exits with code zero within the timeout, and throws otherwise.\<close>

datatype execResult = Completed string | NonZeroExit int | TimedOut

text \<open>\<open>out.indexOf('{')\<close>, with \<open>None\<close> for \<open>-1\<close>.\<close>

fun indexOf :: "string \<Rightarrow> char \<Rightarrow> nat option" where
  "indexOf [] c = None"
| "indexOf (x # xs) c =
     (if x = c then Some 0 else (case indexOf xs c of None \<Rightarrow> None | Some i \<Rightarrow> Some (Suc i)))"

text \<open>\<open>JSON_parse\<close> stands for the built-in \<open>JSON.parse\<close>: \<open>None\<close> when it throws a
  \<open>SyntaxError\<close>. Both bridges return \<open>JNull\<close> for \<open>null\<close>.\<close>

definition runCLI :: "(string \<Rightarrow> json option) \<Rightarrow> execResult \<Rightarrow> json" where
  "runCLI JSON_parse r =
     (case r of
        Completed out \<Rightarrow>
          (case indexOf out CHR ''{'' of
             None \<Rightarrow> JNull
           | Some jsonStart \<Rightarrow> orElse (JSON_parse (drop jsonStart out)) JNull)
      | _ \<Rightarrow> JNull)"

definition execJSON :: "(string \<Rightarrow> json option) \<Rightarrow> execResult \<Rightarrow> json" where
  "execJSON JSON_parse r =
     (case r of
        Completed out \<Rightarrow> orElse (JSON_parse (trim out)) JNull
      | _ \<Rightarrow> JNull)"

text \<open>A parser for instantiating the bridges at concrete outputs: of all texts it
  accepts the empty object \<open>{}\<close> only.\<close>

definition tinyParse :: "string \<Rightarrow> json option" where
  "tinyParse s = (if s = ''{}'' then Some (JObj []) else None)"

section \<open>Cron job summaries (buildSystemData of the system route)\<close>

record cronSchedule =
  cs_kind :: string
  cs_expr :: string

record cronState =
  lastRunAtMs :: "int option"
  nextRunAtMs :: "int option"
  cst_lastStatus :: "string option"
  cst_consecutiveErrors :: "int option"

record cronPayload =
  cp_message :: "string option"

record cronJob =
  job_id :: string
  job_name :: string
  job_enabled :: bool
  job_schedule :: "cronSchedule option"
  job_state :: "cronState option"
  job_payload :: "cronPayload option"

record cronJobSummary =
  cj_id :: string
  cj_name :: string
  cj_schedule :: string
  cj_description :: string
  cj_lastRun :: "int option"
  cj_nextRun :: "int option"
  cj_lastStatus :: string
  cj_totalRuns :: int
  successRate :: int
  cj_enabled :: bool
  consecutiveErrors :: int

record cronData =
  jobs :: "cronJob list option"

definition noCronState :: cronState where
  "noCronState =
     \<lparr>lastRunAtMs = None, nextRunAtMs = None, cst_lastStatus = None, cst_consecutiveErrors = None\<rparr>"

text \<open>\<open>ms ? new Date(ms).toISOString() : null\<close>.\<close>

definition isoOrNull :: "int option \<Rightarrow> jsError + int option" where
  "isoOrNull ms =
     (case ms of
        None \<Rightarrow> Inr None
      | Some t \<Rightarrow>
          if t = 0 then Inr None
          else (case toISOString t of Inl e \<Rightarrow> Inl e | Inr stamp \<Rightarrow> Inr (Some stamp)))"

text \<open>The callback of \<open>.map(job => ...)\<close>.\<close>

definition summarizeJob :: "cronJob \<Rightarrow> jsError + cronJobSummary" where
  "summarizeJob job =
     (let state = orElse (job_state job) noCronState;
          scheduleExpr =
            (case job_schedule job of
               None \<Rightarrow> ''manual''
             | Some sch \<Rightarrow> if cs_kind sch = ''cron'' then cs_expr sch else cs_kind sch);
          lastStatus =
            (if cst_lastStatus state = Some ''ok'' then ''success''
             else orElse (cst_lastStatus state) ''unknown'');
          description = orElse (field cp_message (job_payload job)) []
      in case isoOrNull (lastRunAtMs state) of
           Inl e \<Rightarrow> Inl e
         | Inr lastRun \<Rightarrow>
             (case isoOrNull (nextRunAtMs state) of
                Inl e \<Rightarrow> Inl e
              | Inr nextRun \<Rightarrow>
                  Inr \<lparr>cj_id = job_id job,
                       cj_name = job_name job,
                       cj_schedule = scheduleExpr,
                       cj_description = take 120 description,
                       cj_lastRun = lastRun,
                       cj_nextRun = nextRun,
                       cj_lastStatus = lastStatus,
                       cj_totalRuns = 0,
                       successRate =
                         (if cst_consecutiveErrors state = Some 0 then 100
                          else max 0 (100 - orElse (cst_consecutiveErrors state) 0 * 20)),
                       cj_enabled = job_enabled job,
                       consecutiveErrors = orElse (cst_consecutiveErrors state) 0\<rparr>))"

text \<open>The synthetic job pushed for an enabled heartbeat agent that has no job yet.\<close>

definition heartbeatJob :: "heartbeatAgent \<Rightarrow> cronJobSummary" where
  "heartbeatJob a =
     \<lparr>cj_id = ''heartbeat-'' @ hb_agentId a,
      cj_name = ''Heartbeat ('' @ hb_agentId a @ '')'',
      cj_schedule = ''every '' @ hb_every a,
      cj_description = ''Periodic health check and context update'',
      cj_lastRun = None,
      cj_nextRun = None,
      cj_lastStatus = ''unknown'',
      cj_totalRuns = 0,
      successRate = 100,
      cj_enabled = True,
      consecutiveErrors = 0\<rparr>"

text \<open>The \<open>forEach\<close> loop over the enabled heartbeat agents; it pushes to the list it
  searches.\<close>

fun addHeartbeats :: "cronJobSummary list \<Rightarrow> heartbeatAgent list \<Rightarrow> cronJobSummary list" where
  "addHeartbeats cronJobs [] = cronJobs"
| "addHeartbeats cronJobs (a # rest) =
     (if find (\<lambda>j. cj_id j = ''heartbeat-'' @ hb_agentId a) cronJobs = None
      then addHeartbeats (cronJobs @ [heartbeatJob a]) rest
      else addHeartbeats cronJobs rest)"

text \<open>The \<open>cronJobs\<close> list that \<open>buildSystemData\<close> returns.\<close>

definition cronJobsOf :: "statusData option \<Rightarrow> cronData option \<Rightarrow> jsError + cronJobSummary list" where
  "cronJobsOf sd cd =
     (case mapE summarizeJob (orElse (field jobs cd) []) of
        Inl e \<Rightarrow> Inl e
      | Inr cronJobs \<Rightarrow>
          (let heartbeat = orElse (field sd_heartbeat sd) noHeartbeat;
               heartbeatAgents = orElse (hb_agents heartbeat) []
           in Inr (addHeartbeats cronJobs (filter hb_enabled heartbeatAgents))))"

section \<open>The activity route (src/app/api/activity/route.ts)\<close>

datatype ActivityType = T_message | T_task | T_cron | T_heartbeat | T_memory | T_tool | T_error

datatype ChannelType =
  C_slack | C_discord | C_telegram | C_imessage | C_signal | C_terminal | C_api | C_cron | C_web

datatype ActivityStatus = S_success | S_error | S_pending | S_running

text \<open>The string each member of the union types is.\<close>

fun typeStr :: "ActivityType \<Rightarrow> string" where
  "typeStr T_message = ''message''"
| "typeStr T_task = ''task''"
| "typeStr T_cron = ''cron''"
| "typeStr T_heartbeat = ''heartbeat''"
| "typeStr T_memory = ''memory''"
| "typeStr T_tool = ''tool''"
| "typeStr T_error = ''error''"

fun channelStr :: "ChannelType \<Rightarrow> string" where
  "channelStr C_slack = ''slack''"
| "channelStr C_discord = ''discord''"
| "channelStr C_telegram = ''telegram''"
| "channelStr C_imessage = ''imessage''"
| "channelStr C_signal = ''signal''"
| "channelStr C_terminal = ''terminal''"
| "channelStr C_api = ''api''"
| "channelStr C_cron = ''cron''"
| "channelStr C_web = ''web''"

text \<open>
  The \<open>timestamp\<close> of an entry is a string. It is either the string that
  \<open>toISOString\<close> made of a time value (\<open>ISO t\<close>) or a string copied from the cron
  snapshot as it came (\<open>Text s\<close>). \<open>new Date(timestamp).getTime()\<close> is the time value of
  the former and whatever the built-in date parser makes of the latter; \<open>Date_parse\<close>
  stands for that parser, \<open>None\<close> for \<open>NaN\<close>.
\<close>

datatype timestamp = ISO int | Text string

fun getTime :: "(string \<Rightarrow> int option) \<Rightarrow> timestamp \<Rightarrow> int option" where
  "getTime Date_parse (ISO t) = Some t"
| "getTime Date_parse (Text s) = Date_parse s"

record ActivityEntry =
  ae_id :: string
  ae_timestamp :: timestamp
  ae_type :: ActivityType
  ae_channel :: ChannelType
  ae_summary :: string
  ae_status :: ActivityStatus
  ae_agentId :: "string option"
  ae_tokensUsed :: "int option"
  ae_details :: "string option"

subsection \<open>String helpers of the route\<close>

text \<open>\<open>s.split(sep)\<close> for a separator that is not empty: the pieces between the
  occurrences of \<open>sep\<close>, found from left to right.\<close>

function splitStr :: "string \<Rightarrow> string \<Rightarrow> string list" where
  "splitStr sep [] = [[]]"
| "splitStr sep (c # cs) =
     (if sep \<noteq> [] \<and> take (length sep) (c # cs) = sep
      then [] # splitStr sep (drop (length sep) (c # cs))
      else (case splitStr sep cs of [] \<Rightarrow> [[c]] | w # ws \<Rightarrow> (c # w) # ws))"
  by pat_completeness auto
termination
  by (relation "measure (\<lambda>(sep, s). length s)") auto

text \<open>\<open>xs[i]\<close>, \<open>undefined\<close> out of range.\<close>

definition nthOpt :: "'a list \<Rightarrow> nat \<Rightarrow> 'a option" where
  "nthOpt xs i = (if i < length xs then Some (xs ! i) else None)"

text \<open>\<open>x || d\<close> for strings: the empty string and \<open>undefined\<close> are falsy.\<close>

definition strOr :: "string option \<Rightarrow> string \<Rightarrow> string" where
  "strOr x d = (case x of None \<Rightarrow> d | Some s \<Rightarrow> if s = [] then d else s)"

text \<open>\<open>x || 0\<close> for numbers.\<close>

definition numOr0 :: "int option \<Rightarrow> int" where
  "numOr0 x = (case x of None \<Rightarrow> 0 | Some n \<Rightarrow> n)"

text \<open>Decimal digits of an index, as a template string prints it.\<close>

fun natStr :: "nat \<Rightarrow> string" where
  "natStr n = (if n < 10 then [char_of (48 + n)] else natStr (n div 10) @ [char_of (48 + n mod 10)])"

subsection \<open>Entries from session records\<close>

record sessionRecord =
  s_key :: string
  s_kind :: string
  s_updatedAt :: int
  s_sessionId :: string
  s_model :: "string option"
  s_totalTokens :: "int option"
  s_inputTokens :: "int option"
  s_outputTokens :: "int option"

text \<open>The classification of a session key: type, channel and summary.\<close>

definition classify :: "string \<Rightarrow> ActivityType \<times> ChannelType \<times> string" where
  "classify key =
     (if str_includes key ''cron'' then
        (T_cron, C_cron,
         ''Cron job '' @ strOr (map_option (take 8) (nthOpt (splitStr ''cron:'' key) 1)) ''unknown'')
      else if str_includes key ''spawn'' then
        (T_task, C_terminal, ''Sub-agent: '' @ strOr (nthOpt (splitStr ''spawn:'' key) 1) ''subagent'')
      else if str_includes key ''telegram'' then (T_message, C_telegram, ''Telegram conversation'')
      else if str_includes key ''discord'' then (T_message, C_discord, ''Discord conversation'')
      else if str_includes key ''imessage'' then (T_message, C_imessage, ''iMessage conversation'')
      else if key = ''agent:main:main'' then (T_message, C_telegram, ''Main session (Telegram)'')
      else (T_message, C_terminal, ''Session: '' @ key))"

text \<open>The body of the loop over the sessions. \<open>toLocaleString\<close> is the host's number
  formatting. The only expression that can throw is the \<open>toISOString\<close> call.\<close>

definition sessionEntry :: "(int \<Rightarrow> string) \<Rightarrow> sessionRecord \<Rightarrow> jsError + ActivityEntry" where
  "sessionEntry toLocaleString sess =
     (let key = s_key sess in
      case toISOString (s_updatedAt sess) of
        Inl e \<Rightarrow> Inl e
      | Inr ts \<Rightarrow>
          (let (ty, ch, summ) = classify key;
               tokens =
                 (if numOr0 (s_totalTokens sess) \<noteq> 0 then numOr0 (s_totalTokens sess)
                  else numOr0 (s_inputTokens sess) + numOr0 (s_outputTokens sess))
           in Inr \<lparr>ae_id = (if s_sessionId sess \<noteq> [] then s_sessionId sess else key),
                   ae_timestamp = ISO ts,
                   ae_type = ty,
                   ae_channel = ch,
                   ae_summary = summ,
                   ae_status = S_success,
                   ae_agentId =
                     (if str_includes key ''agent:main'' then Some ''main''
                      else nthOpt (splitStr '':'' key) 1),
                   ae_tokensUsed = (if tokens \<noteq> 0 then Some tokens else None),
                   ae_details =
                     Some (''Model: '' @ strOr (s_model sess) ''unknown'' @ '' | Tokens: ''
                           @ toLocaleString tokens)\<rparr>))"

text \<open>The loop runs inside a \<open>try\<close> block: an exception ends it and the entries pushed
  so far stay.\<close>

fun sessionEntries :: "(int \<Rightarrow> string) \<Rightarrow> sessionRecord list \<Rightarrow> ActivityEntry list" where
  "sessionEntries f [] = []"
| "sessionEntries f (sess # rest) =
     (case sessionEntry f sess of
        Inl e \<Rightarrow> []
      | Inr entry \<Rightarrow> entry # sessionEntries f rest)"

subsection \<open>Entries from cron jobs\<close>

record runSchedule =
  sch_kind :: string
  sch_expr :: "string option"

text \<open>\<open>lastRunAt\<close> is a string of the snapshot, copied unchecked when it is truthy
  (present and not empty).\<close>

record cronRun =
  cr_id :: string
  cr_name :: "string option"
  cr_enabled :: bool
  cr_schedule :: "runSchedule option"
  cr_lastRunAt :: "string option"
  cr_lastRunStatus :: "string option"

definition cronEntry :: "cronRun \<Rightarrow> string \<Rightarrow> ActivityEntry" where
  "cronEntry job lastRunAt =
     \<lparr>ae_id = ''cron_'' @ cr_id job,
      ae_timestamp = Text lastRunAt,
      ae_type = T_cron,
      ae_channel = C_cron,
      ae_summary = ''Cron: '' @ strOr (cr_name job) (cr_id job),
      ae_status = (if cr_lastRunStatus job = Some ''error'' then S_error else S_success),
      ae_agentId = None,
      ae_tokensUsed = None,
      ae_details =
        Some (''Schedule: ''
              @ strOr (field sch_expr (cr_schedule job))
                  (strOr (map_option sch_kind (cr_schedule job)) ''unknown'')
              @ '' | Enabled: '' @ (if cr_enabled job then ''true'' else ''false''))\<rparr>"

fun cronEntries :: "cronRun list \<Rightarrow> ActivityEntry list" where
  "cronEntries [] = []"
| "cronEntries (job # rest) =
     (case cr_lastRunAt job of
        None \<Rightarrow> cronEntries rest
      | Some s \<Rightarrow> if s = [] then cronEntries rest else cronEntry job s # cronEntries rest)"

subsection \<open>Entries from the memory note of the day\<close>

text \<open>\<open>s.split('\n')\<close>.\<close>

definition splitLines :: "string \<Rightarrow> string list" where
  "splitLines content = splitStr [CHR 0x0A] content"

definition isHeadingLine :: "string \<Rightarrow> bool" where
  "isHeadingLine l = (startsWith l ''## '' \<or> startsWith l ''### '')"

text \<open>\<open>l.replace(/^#+\s*/, '')\<close>.\<close>

definition stripHashes :: "string \<Rightarrow> string" where
  "stripHashes l =
     (if startsWith l ''#'' then dropWhile isSpace (dropWhile (\<lambda>c. c = CHR ''#'') l) else l)"

definition memoryEntry :: "string \<Rightarrow> (nat \<Rightarrow> int) \<Rightarrow> string list \<Rightarrow> nat \<Rightarrow> ActivityEntry" where
  "memoryEntry today clock lines i =
     \<lparr>ae_id = ''mem_'' @ today @ ''_'' @ natStr i,
      ae_timestamp = ISO (clock i),
      ae_type = T_memory,
      ae_channel = C_terminal,
      ae_summary = ''Memory: '' @ stripHashes (lines ! i),
      ae_status = S_success,
      ae_agentId = None,
      ae_tokensUsed = None,
      ae_details = Some (''Source: memory/'' @ today @ ''.md'')\<rparr>"

text \<open>\<open>today\<close> is the date part of the clock; \<open>content\<close> is the text of the note of the
  day, \<open>None\<close> when the file does not exist or cannot be read; \<open>clock i\<close> is the reading
  of the clock when entry \<open>i\<close> is built.\<close>

definition memoryEntries :: "string \<Rightarrow> string option \<Rightarrow> (nat \<Rightarrow> int) \<Rightarrow> ActivityEntry list" where
  "memoryEntries today content clock =
     (case content of
        None \<Rightarrow> []
      | Some text \<Rightarrow>
          (let lines = filter isHeadingLine (splitLines text)
           in map (memoryEntry today clock lines) [0..<min (length lines) 5]))"

subsection \<open>Merging, sorting and removing duplicates\<close>

text \<open>The comparator \<open>(a, b) => new Date(b.timestamp).getTime() - new Date(a.timestamp).getTime()\<close>:
  \<open>None\<close> is \<open>NaN\<close>, the difference when either time is \<open>NaN\<close>.\<close>

definition compareEntries ::
  "(string \<Rightarrow> int option) \<Rightarrow> ActivityEntry \<Rightarrow> ActivityEntry \<Rightarrow> int option" where
  "compareEntries Date_parse a b =
     (case (getTime Date_parse (ae_timestamp b), getTime Date_parse (ae_timestamp a)) of
        (Some tb, Some ta) \<Rightarrow> Some (tb - ta)
      | _ \<Rightarrow> None)"

text \<open>The time value of an entry, \<open>None\<close> when its timestamp is not a date; lists of
  entries all of whose timestamps are dates; and the time of an entry as a number, which
  is its time value when the timestamp is a date.\<close>

definition timeValue :: "(string \<Rightarrow> int option) \<Rightarrow> ActivityEntry \<Rightarrow> int option" where
  "timeValue Date_parse e = getTime Date_parse (ae_timestamp e)"

definition datesValid :: "(string \<Rightarrow> int option) \<Rightarrow> ActivityEntry list \<Rightarrow> bool" where
  "datesValid Date_parse es = list_all (\<lambda>e. timeValue Date_parse e \<noteq> None) es"

definition timeKey :: "(string \<Rightarrow> int option) \<Rightarrow> ActivityEntry \<Rightarrow> int" where
  "timeKey Date_parse e = (case timeValue Date_parse e of None \<Rightarrow> 0 | Some t \<Rightarrow> t)"

text \<open>The stable sort into descending order of time.\<close>

definition stableDesc :: "(string \<Rightarrow> int option) \<Rightarrow> ActivityEntry list \<Rightarrow> ActivityEntry list" where
  "stableDesc Date_parse es = sort_key (\<lambda>e. - timeKey Date_parse e) es"

text \<open>
  The sort of an engine, \<open>Array.prototype.sort\<close>: a function of the comparator and the
  array which, whatever the comparator, returns the elements of the array in some order.
\<close>

typedef 'a arraySort =
  "{S :: ('a \<Rightarrow> 'a \<Rightarrow> int option) \<Rightarrow> 'a list \<Rightarrow> 'a list. \<forall>c es. mset (S c es) = mset es}"
  morphisms runSort Abs_arraySort
  by (rule exI [of _ "\<lambda>c es. es"]) simp

setup_lifting type_definition_arraySort

text \<open>
  \<open>entries.sort(comparator)\<close>. The sort of an array is stable and puts the elements in
  the order of the comparator: when every timestamp is a date the comparator is the
  descending order of time and the result is the stable sort into that order. When a
  timestamp is no date the comparator yields \<open>NaN\<close> and orders the entries
  inconsistently; the language then leaves the order to the engine.
\<close>

definition sortDesc ::
  "ActivityEntry arraySort \<Rightarrow> (string \<Rightarrow> int option) \<Rightarrow> ActivityEntry list \<Rightarrow> ActivityEntry list" where
  "sortDesc Array_sort Date_parse entries =
     (if datesValid Date_parse entries then stableDesc Date_parse entries
      else runSort Array_sort (compareEntries Date_parse) entries)"

text \<open>The \<open>filter\<close> with the set \<open>seen\<close> of the ids met so far.\<close>

fun dedupe :: "string list \<Rightarrow> ActivityEntry list \<Rightarrow> ActivityEntry list" where
  "dedupe seen [] = []"
| "dedupe seen (e # es) =
     (if ae_id e \<in> set seen then dedupe seen es else e # dedupe (ae_id e # seen) es)"

record activityInputs =
  in_sessions :: "sessionRecord list option"
  in_jobs :: "cronRun list option"
  in_today :: string
  in_note :: "string option"
  in_clock :: "nat \<Rightarrow> int"

definition collect :: "(int \<Rightarrow> string) \<Rightarrow> activityInputs \<Rightarrow> ActivityEntry list" where
  "collect f inp =
     sessionEntries f (orElse (in_sessions inp) [])
     @ cronEntries (orElse (in_jobs inp) [])
     @ memoryEntries (in_today inp) (in_note inp) (in_clock inp)"

definition normalize ::
  "ActivityEntry arraySort \<Rightarrow> (string \<Rightarrow> int option) \<Rightarrow> (int \<Rightarrow> string) \<Rightarrow> activityInputs
    \<Rightarrow> ActivityEntry list" where
  "normalize Array_sort Date_parse f inp =
     dedupe [] (sortDesc Array_sort Date_parse (collect f inp))"

record activityCache =
  cachedActivity :: "ActivityEntry list option"
  cacheTimestamp :: int

definition ACTIVITY_TTL :: int where
  "ACTIVITY_TTL = 3000"

definition getSessionActivity ::
  "ActivityEntry arraySort \<Rightarrow> (string \<Rightarrow> int option) \<Rightarrow> (int \<Rightarrow> string) \<Rightarrow> activityCache \<Rightarrow> int
    \<Rightarrow> activityInputs \<Rightarrow> ActivityEntry list \<times> activityCache" where
  "getSessionActivity Array_sort Date_parse f cache now inp =
     (case cachedActivity cache of
        Some cached \<Rightarrow>
          if now - cacheTimestamp cache < ACTIVITY_TTL then (cached, cache)
          else (let deduped = normalize Array_sort Date_parse f inp
                in (deduped, \<lparr>cachedActivity = Some deduped, cacheTimestamp = now\<rparr>))
      | None \<Rightarrow>
          (let deduped = normalize Array_sort Date_parse f inp
           in (deduped, \<lparr>cachedActivity = Some deduped, cacheTimestamp = now\<rparr>)))"

subsection \<open>The query\<close>

text \<open>\<open>xs.slice(s, e)\<close>: a negative index counts from the end, both are clamped.\<close>

definition jsSlice :: "'a list \<Rightarrow> int \<Rightarrow> int \<Rightarrow> 'a list" where
  "jsSlice xs s e =
     (let n = int (length xs);
          k = (if s < 0 then max (n + s) 0 else min s n);
          final = (if e < 0 then max (n + e) 0 else min e n)
      in take (nat (final - k)) (drop (nat k) xs))"

text \<open>The parameters of the request. \<open>q_page\<close> and \<open>q_pageSize\<close> are the results of
  \<open>parseInt\<close>, \<open>None\<close> for \<open>NaN\<close>.\<close>

record activityQuery =
  q_type :: "string option"
  q_channel :: "string option"
  q_search :: "string option"
  q_page :: "int option"
  q_pageSize :: "int option"

record activityPage =
  items :: "ActivityEntry list"
  total :: int
  page :: "int option"
  pageSize :: "int option"
  hasMore :: bool

text \<open>\<open>if (p) entries = entries.filter(...)\<close> for a string parameter \<open>p\<close>, which is
  falsy when absent or empty.\<close>

definition filterIf :: "string option \<Rightarrow> (string \<Rightarrow> 'a \<Rightarrow> bool) \<Rightarrow> 'a list \<Rightarrow> 'a list" where
  "filterIf p test entries =
     (case p of
        None \<Rightarrow> entries
      | Some v \<Rightarrow> if v = [] then entries else filter (test v) entries)"

definition searchMatch :: "string \<Rightarrow> ActivityEntry \<Rightarrow> bool" where
  "searchMatch search e =
     (str_includes (toLowerCase (ae_summary e)) search
      \<or> str_includes (typeStr (ae_type e)) search
      \<or> (case ae_agentId e of None \<Rightarrow> False | Some a \<Rightarrow> str_includes (toLowerCase a) search))"

text \<open>The handler, given the feed that \<open>getSessionActivity\<close> returned.\<close>

definition GET_activity :: "ActivityEntry list \<Rightarrow> activityQuery \<Rightarrow> activityPage" where
  "GET_activity feed q =
     (let search = map_option toLowerCase (q_search q);
          entries1 = filterIf (q_type q) (\<lambda>t e. typeStr (ae_type e) = t) feed;
          entries2 = filterIf (q_channel q) (\<lambda>c e. channelStr (ae_channel e) = c) entries1;
          entries3 = filterIf search searchMatch entries2;
          n = int (length entries3)
      in case (q_page q, q_pageSize q) of
           (Some p, Some sz) \<Rightarrow>
             (let start = (p - 1) * sz
              in \<lparr>items = jsSlice entries3 start (start + sz),
                  total = n, page = Some p, pageSize = Some sz,
                  hasMore = (start + sz < n)\<rparr>)
         | _ \<Rightarrow>
             \<lparr>items = jsSlice entries3 0 0,
              total = n, page = q_page q, pageSize = q_pageSize q,
              hasMore = False\<rparr>)"

section \<open>Auxiliary notions and sample inputs\<close>

text \<open>The consecutive-error count of a cron job record of the snapshot:
  \<open>job.state?.consecutiveErrors\<close>, an absent count reading as \<open>0\<close>.\<close>

definition errorCount :: "cronJob \<Rightarrow> int" where
  "errorCount job = orElse (cst_consecutiveErrors (orElse (job_state job) noCronState)) 0"

text \<open>The success rate as a function of that count.\<close>

definition rateOf :: "int \<Rightarrow> int" where
  "rateOf n = max 0 (100 - n * 20)"

text \<open>Two cron jobs, with one and with three consecutive errors.\<close>

definition sampleJob1 :: cronJob where
  "sampleJob1 =
     \<lparr>job_id = ''a'', job_name = ''A'', job_enabled = True, job_schedule = None,
      job_state = Some \<lparr>lastRunAtMs = None, nextRunAtMs = None, cst_lastStatus = Some ''ok'',
                        cst_consecutiveErrors = Some 1\<rparr>,
      job_payload = None\<rparr>"

definition sampleJob2 :: cronJob where
  "sampleJob2 =
     \<lparr>job_id = ''b'', job_name = ''B'', job_enabled = True, job_schedule = None,
      job_state = Some \<lparr>lastRunAtMs = None, nextRunAtMs = None, cst_lastStatus = None,
                        cst_consecutiveErrors = Some 3\<rparr>,
      job_payload = None\<rparr>"

definition sampleSummary1 :: cronJobSummary where
  "sampleSummary1 =
     \<lparr>cj_id = ''a'', cj_name = ''A'', cj_schedule = ''manual'', cj_description = [],
      cj_lastRun = None, cj_nextRun = None, cj_lastStatus = ''success'', cj_totalRuns = 0,
      successRate = 80, cj_enabled = True, consecutiveErrors = 1\<rparr>"

definition sampleSummary2 :: cronJobSummary where
  "sampleSummary2 =
     \<lparr>cj_id = ''b'', cj_name = ''B'', cj_schedule = ''manual'', cj_description = [],
      cj_lastRun = None, cj_nextRun = None, cj_lastStatus = ''unknown'', cj_totalRuns = 0,
      successRate = 40, cj_enabled = True, consecutiveErrors = 3\<rparr>"

text \<open>Reading the outcome of the status derivers: the derived health, \<open>None\<close> when the
  deriver threw; whether the snapshot says the gateway is reachable
  (\<open>gateway.reachable ?? false\<close>); and whether the \<open>toISOString\<close> call for the last
  heartbeat throws, the only exception of the derivers.\<close>

definition healthOf :: "jsError + 'a systemStatus_scheme \<Rightarrow> health option" where
  "healthOf r = (case r of Inl e \<Rightarrow> None | Inr s \<Rightarrow> Some (health s))"

definition gatewayUp :: "statusData option \<Rightarrow> bool" where
  "gatewayUp sd = orElse (gw_reachable (orElse (field sd_gateway sd) noGateway)) False"

definition heartbeatThrows :: "int \<Rightarrow> statusData option \<Rightarrow> bool" where
  "heartbeatThrows now sd =
     isl (lastHeartbeatOf now (orElse (recent (orElse (field sd_sessions sd) noSessions)) []))"

text \<open>The channels a health snapshot lists, and the two properties of a listed channel
  that the specification speaks of.\<close>

definition channelsOf :: "healthData \<Rightarrow> (string \<times> channelInfo) list" where
  "channelsOf hdata = orElse (hd_channels hdata) []"

definition probeHealthy :: "channelInfo \<Rightarrow> bool" where
  "probeHealthy c = (field ok (probe c) = Some True)"

definition isConfigured :: "channelInfo \<Rightarrow> bool" where
  "isConfigured c = (configured c = Some True)"

text \<open>The premise and the two cases of the specification's rule for a reachable gateway:
  some configured channel probes healthy; all configured channels do.\<close>

definition someConfiguredHealthy :: "healthData \<Rightarrow> bool" where
  "someConfiguredHealthy hdata = list_ex (\<lambda>c. isConfigured c \<and> probeHealthy c) (map snd (channelsOf hdata))"

definition allConfiguredHealthy :: "healthData \<Rightarrow> bool" where
  "allConfiguredHealthy hdata = list_all probeHealthy (filter isConfigured (map snd (channelsOf hdata)))"

text \<open>Sample snapshots: a host; a status snapshot whose gateway is down and one whose
  gateway is up, with one configured channel in the channel summary; a health snapshot
  with one configured channel that probes healthy; and one that also lists a channel
  that is neither configured nor probed.\<close>

definition sampleHost :: host where
  "sampleHost =
     \<lparr>processUptime = 60, osUptime = 3600, usedMemMb = 512, totalMemMb = 1024, cpuPercent = 7,
      platform = ''linux''\<rparr>"

definition statusWith :: "bool \<Rightarrow> statusData" where
  "statusWith up =
     \<lparr>sd_gateway = Some \<lparr>gw_self = None, gw_reachable = Some up, gw_mode = None\<rparr>,
      sd_update = None, sd_os = None, sd_memory = None, sd_sessions = None, sd_heartbeat = None,
      sd_channelSummary = Some [''Telegram: configured'', ''  - default (token:config)'']\<rparr>"

definition okChannel :: channelInfo where
  "okChannel = \<lparr>probe = Some \<lparr>ok = Some True\<rparr>, configured = Some True\<rparr>"

definition idleChannel :: channelInfo where
  "idleChannel = \<lparr>probe = None, configured = Some False\<rparr>"

definition okHealth :: healthData where
  "okHealth = \<lparr>hd_channels = Some [(''telegram'', okChannel)]\<rparr>"

definition mixedHealth :: healthData where
  "mixedHealth = \<lparr>hd_channels = Some [(''telegram'', okChannel), (''signal'', idleChannel)]\<rparr>"





text \<open>The query in the words of the specification: an entry passes when it passes the
  type test and the channel test and the search test; a parameter that is absent or empty
  tests nothing; the search text is looked for, letter case ignored, in the summary, in
  the type and in the agent id.\<close>

definition typeOk :: "activityQuery \<Rightarrow> ActivityEntry \<Rightarrow> bool" where
  "typeOk q e = (case q_type q of None \<Rightarrow> True | Some t \<Rightarrow> t = [] \<or> typeStr (ae_type e) = t)"

definition channelOk :: "activityQuery \<Rightarrow> ActivityEntry \<Rightarrow> bool" where
  "channelOk q e =
     (case q_channel q of None \<Rightarrow> True | Some c \<Rightarrow> c = [] \<or> channelStr (ae_channel e) = c)"

definition occursIn :: "string \<Rightarrow> string \<Rightarrow> bool" where
  "occursIn needle s = sublist (toLowerCase needle) (toLowerCase s)"

definition searchOk :: "activityQuery \<Rightarrow> ActivityEntry \<Rightarrow> bool" where
  "searchOk q e =
     (case q_search q of
        None \<Rightarrow> True
      | Some s \<Rightarrow>
          s = [] \<or> occursIn s (ae_summary e) \<or> occursIn s (typeStr (ae_type e))
          \<or> (case ae_agentId e of None \<Rightarrow> False | Some a \<Rightarrow> occursIn s a))"

definition queryMatch :: "activityQuery \<Rightarrow> ActivityEntry \<Rightarrow> bool" where
  "queryMatch q e = (typeOk q e \<and> channelOk q e \<and> searchOk q e)"

text \<open>A feed of three entries and a query for the first page of two \<open>message\<close> entries.\<close>

definition sampleEntry :: "string \<Rightarrow> int \<Rightarrow> ActivityType \<Rightarrow> ActivityEntry" where
  "sampleEntry i t ty =
     \<lparr>ae_id = i, ae_timestamp = ISO t, ae_type = ty, ae_channel = C_terminal,
      ae_summary = ''Session: '' @ i, ae_status = S_success, ae_agentId = Some ''main'',
      ae_tokensUsed = None, ae_details = None\<rparr>"

definition sampleFeed :: "ActivityEntry list" where
  "sampleFeed =
     [sampleEntry ''s3'' 30 T_message, sampleEntry ''s2'' 20 T_cron, sampleEntry ''s1'' 10 T_message,
      sampleEntry ''s0'' 5 T_message]"

definition sampleQuery :: activityQuery where
  "sampleQuery =
     \<lparr>q_type = Some ''message'', q_channel = None, q_search = Some ''SESSION'',
      q_page = Some 1, q_pageSize = Some 2\<rparr>"

text \<open>What the specification asks of every feed: newest first, ids unique. Two entries
  are in order when the time of the later one in the list does not exceed the time of
  the earlier one; an entry whose timestamp is no date is in order with every entry.\<close>

definition inOrder :: "(string \<Rightarrow> int option) \<Rightarrow> ActivityEntry \<Rightarrow> ActivityEntry \<Rightarrow> bool" where
  "inOrder Date_parse a b =
     (case (timeValue Date_parse a, timeValue Date_parse b) of
        (Some ta, Some tb) \<Rightarrow> tb \<le> ta
      | _ \<Rightarrow> True)"

definition newestFirst :: "(string \<Rightarrow> int option) \<Rightarrow> ActivityEntry list \<Rightarrow> bool" where
  "newestFirst Date_parse es = sorted_wrt (inOrder Date_parse) es"

definition feedOk :: "(string \<Rightarrow> int option) \<Rightarrow> ActivityEntry list \<Rightarrow> bool" where
  "feedOk Date_parse es = (newestFirst Date_parse es \<and> distinct (map ae_id es))"

definition cacheOk :: "(string \<Rightarrow> int option) \<Rightarrow> activityCache \<Rightarrow> bool" where
  "cacheOk Date_parse cache =
     (case cachedActivity cache of None \<Rightarrow> True | Some es \<Rightarrow> feedOk Date_parse es)"

text \<open>Whether \<open>getSessionActivity\<close> serves the cached feed.\<close>

definition activityFresh :: "activityCache \<Rightarrow> int \<Rightarrow> bool" where
  "activityFresh cache now =
     (cachedActivity cache \<noteq> None \<and> now - cacheTimestamp cache < ACTIVITY_TTL)"

text \<open>An engine for the samples: an insertion sort that reads a comparator result of
  \<open>NaN\<close> as \<open>0\<close>, as the language prescribes, inserts the elements from the last to the
  first and puts an element before the first one it does not exceed.\<close>

definition sortCompare :: "('a \<Rightarrow> 'a \<Rightarrow> int option) \<Rightarrow> 'a \<Rightarrow> 'a \<Rightarrow> int" where
  "sortCompare comparefn x y = (case comparefn x y of None \<Rightarrow> 0 | Some v \<Rightarrow> v)"

fun insertBy :: "('a \<Rightarrow> 'a \<Rightarrow> int option) \<Rightarrow> 'a \<Rightarrow> 'a list \<Rightarrow> 'a list" where
  "insertBy comparefn x [] = [x]"
| "insertBy comparefn x (y # ys) =
     (if sortCompare comparefn x y \<le> 0 then x # y # ys else y # insertBy comparefn x ys)"

definition insertionSort :: "('a \<Rightarrow> 'a \<Rightarrow> int option) \<Rightarrow> 'a list \<Rightarrow> 'a list" where
  "insertionSort comparefn xs = foldr (insertBy comparefn) xs []"

lift_definition insertionEngine :: "'a arraySort" is insertionSort
proof -
  fix c :: "'a \<Rightarrow> 'a \<Rightarrow> int option" and es :: "'a list"
  have ins: "mset (insertBy c x ys) = add_mset x (mset ys)" for x ys
    by (induction ys) auto
  show "mset (insertionSort c es) = mset es"
    by (induction es) (auto simp: insertionSort_def ins)
qed

text \<open>The heading lines of a note: the lines that start with \<open>## \<close> or \<open>### \<close>.\<close>

definition headingLines :: "string \<Rightarrow> string list" where
  "headingLines note = filter isHeadingLine (splitLines note)"

text \<open>Sample inputs: two session records with the same session id and different times,
  a cron job that ran, and a note; a note with six headings; the number formatting of
  the samples; and a date parser for the samples, which agrees with \<open>Date.parse\<close> on
  the three strings the samples hold: two ISO dates and the text \<open>not a date\<close>.\<close>

definition sampleParse :: "string \<Rightarrow> int option" where
  "sampleParse s =
     (if s = ''1970-01-01T00:00:00.150Z'' then Some 150
      else if s = ''1970-01-01T00:00:00.040Z'' then Some 40
      else None)"

definition joinLines :: "string list \<Rightarrow> string" where
  "joinLines ls = concat (map (\<lambda>l. l @ [CHR 0x0A]) ls)"

definition plainNumber :: "int \<Rightarrow> string" where
  "plainNumber n = (if n < 0 then ''-'' @ natStr (nat (- n)) else natStr (nat n))"

definition sampleSession :: "string \<Rightarrow> int \<Rightarrow> sessionRecord" where
  "sampleSession key t =
     \<lparr>s_key = key, s_kind = ''direct'', s_updatedAt = t, s_sessionId = ''sess-1'',
      s_model = None, s_totalTokens = None, s_inputTokens = Some 3, s_outputTokens = Some 4\<rparr>"

definition sampleRun :: cronRun where
  "sampleRun =
     \<lparr>cr_id = ''nightly'', cr_name = None, cr_enabled = True, cr_schedule = None,
      cr_lastRunAt = Some ''1970-01-01T00:00:00.150Z'', cr_lastRunStatus = Some ''error''\<rparr>"

definition sampleInputs :: activityInputs where
  "sampleInputs =
     \<lparr>in_sessions = Some [sampleSession ''agent:main:main'' 100, sampleSession ''agent:ops:discord:1'' 200],
      in_jobs = Some [sampleRun],
      in_today = ''2026-02-18'',
      in_note = Some (joinLines [''# Day'', ''## Morning'', ''text'', ''###  Fixes'']),
      in_clock = (\<lambda>i. 300)\<rparr>"

definition sixHeadings :: string where
  "sixHeadings = joinLines [''## a'', ''## b'', ''## c'', ''## d'', ''## e'', ''## f'']"

definition noteInputs :: "string \<Rightarrow> activityInputs" where
  "noteInputs note =
     \<lparr>in_sessions = None, in_jobs = None, in_today = ''2026-02-18'', in_note = Some note,
      in_clock = (\<lambda>i. 300)\<rparr>"

text \<open>Inputs with a session updated at time 10, a cron job whose \<open>lastRunAt\<close> is the
  text \<open>not a date\<close>, and a cron job that ran at time 40.\<close>

definition cronRunAt :: "string \<Rightarrow> string \<Rightarrow> cronRun" where
  "cronRunAt i lastRunAt =
     \<lparr>cr_id = i, cr_name = None, cr_enabled = True, cr_schedule = None,
      cr_lastRunAt = Some lastRunAt, cr_lastRunStatus = None\<rparr>"

definition badDateInputs :: activityInputs where
  "badDateInputs =
     \<lparr>in_sessions =
        Some [\<lparr>s_key = ''agent:main:main'', s_kind = ''direct'', s_updatedAt = 10,
               s_sessionId = ''a'', s_model = None, s_totalTokens = None, s_inputTokens = None,
               s_outputTokens = None\<rparr>],
      in_jobs = Some [cronRunAt ''bad'' ''not a date'', cronRunAt ''good'' ''1970-01-01T00:00:00.040Z''],
      in_today = ''2026-02-18'', in_note = None, in_clock = (\<lambda>i. 300)\<rparr>"

section \<open>Properties of the redactor\<close>

lemma str_includes_sublist: "str_includes s sub = sublist sub s"
proof (induction s)
  case Nil
  then show ?case by auto
next
  case (Cons c cs)
  have "take (length sub) (c # cs) = sub \<longleftrightarrow> prefix sub (c # cs)"
    by (metis append_eq_conv_conj prefix_def)
  then show ?case using Cons by (simp add: sublist_Cons_right)
qed






lemma redact_marker: "redact (JStr REDACTED) = JStr REDACTED"
  by code_simp

lemma redact_JStr_cases: "redact (JStr s) = JStr REDACTED \<or> redact (JStr s) = JStr s"
  by simp

lemma redact_JStr_idem: "redact (redact (JStr s)) = redact (JStr s)"
proof (cases "redact (JStr s) = JStr s")
  case True
  then show ?thesis by simp
next
  case False
  then have "redact (JStr s) = JStr REDACTED" using redact_JStr_cases by blast
  then show ?thesis by (simp only: redact_marker)
qed

lemma proto_not_sensitive: "\<not> testTerms keyTerms ''__proto__''"
  by code_simp

lemma concat_map_idem:
  assumes "\<And>x. x \<in> set xs \<Longrightarrow> concat (map g (g x)) = g x"
  shows "concat (map g (concat (map g xs))) = concat (map g xs)"
  using assms by (induction xs) simp_all

lemma redact_entries_idem:
  assumes "\<And>k v. (k, v) \<in> set kvs \<Longrightarrow> \<not> testTerms keyTerms k \<Longrightarrow> redact (redact v) = redact v"
  shows "concat (map (\<lambda>(k, v). if testTerms keyTerms k then assign k (JStr REDACTED)
                                 else assign k (redact v))
           (concat (map (\<lambda>(k, v). if testTerms keyTerms k then assign k (JStr REDACTED)
                                   else assign k (redact v)) kvs)))
         = concat (map (\<lambda>(k, v). if testTerms keyTerms k then assign k (JStr REDACTED)
                                   else assign k (redact v)) kvs)"
proof (rule concat_map_idem)
  fix x assume x: "x \<in> set kvs"
  obtain k v where kv: "x = (k, v)" by (cases x)
  have "\<not> testTerms keyTerms k \<Longrightarrow> redact (redact v) = redact v"
    using assms x kv by simp
  then show "concat (map (\<lambda>(k, v). if testTerms keyTerms k then assign k (JStr REDACTED)
                                 else assign k (redact v))
               (case x of (k, v) \<Rightarrow> if testTerms keyTerms k then assign k (JStr REDACTED)
                                 else assign k (redact v)))
             = (case x of (k, v) \<Rightarrow> if testTerms keyTerms k then assign k (JStr REDACTED)
                                 else assign k (redact v))"
    by (simp add: kv assign_def)
qed

lemma redact_idem: "redact (redact v) = redact v"
proof (induction v rule: redact.induct)
  case (1 s)
  show ?case by (rule redact_JStr_idem)
next
  case (2 xs)
  then show ?case by simp
next
  case (3 kvs)
  have "\<And>k v. (k, v) \<in> set kvs \<Longrightarrow> \<not> testTerms keyTerms k \<Longrightarrow> redact (redact v) = redact v"
    using 3 by blast
  then show ?case using redact_entries_idem [of kvs] by simp
qed simp_all

lemma redact_keys:
  "keysOf (concat (map (\<lambda>(k, v). if testTerms keyTerms k then assign k (JStr REDACTED)
                                  else assign k (redact v)) kvs))
   = filter (\<lambda>k. k \<noteq> ''__proto__'') (keysOf kvs)"
  by (induction kvs) (auto simp: keysOf_def assign_def split: prod.splits)





text \<open>
  C10. Redacting twice is redacting once, and the marker itself is left unchanged. The
  redacted array has the length of the array, and \<open>null\<close>, booleans and numbers are
  unchanged. The redacted object has the keys of the object other than \<open>__proto__\<close>, in
  the same order: the keys are the same when none of them is \<open>__proto__\<close>, and an entry
  with that key is lost.
\<close>

theorem redact_idempotent_shape:
  "redact (redact v) = redact v
   \<and> redact (JStr REDACTED) = JStr REDACTED
   \<and> (\<exists>kvs'. redact (JObj kvs) = JObj kvs'
        \<and> keysOf kvs' = filter (\<lambda>k. k \<noteq> ''__proto__'') (keysOf kvs)
        \<and> (plainKeys kvs \<longrightarrow> keysOf kvs' = keysOf kvs))
   \<and> (\<exists>ys. redact (JArr xs) = JArr ys \<and> length ys = length xs)
   \<and> redact JNull = JNull \<and> redact (JBool b) = JBool b \<and> redact (JNum n) = JNum n"
proof -
  have same: "plainKeys kvs \<longrightarrow> filter (\<lambda>k. k \<noteq> ''__proto__'') (keysOf kvs) = keysOf kvs"
    by (auto simp: plainKeys_def filter_id_conv)
  have obj: "\<exists>kvs'. redact (JObj kvs) = JObj kvs'
        \<and> keysOf kvs' = filter (\<lambda>k. k \<noteq> ''__proto__'') (keysOf kvs)
        \<and> (plainKeys kvs \<longrightarrow> keysOf kvs' = keysOf kvs)"
    using redact_keys [of kvs] same by simp
  have arr: "\<exists>ys. redact (JArr xs) = JArr ys \<and> length ys = length xs" by simp
  have idem: "redact (redact v) = redact v" by (rule redact_idem)
  have rest: "redact JNull = JNull \<and> redact (JBool b) = JBool b \<and> redact (JNum n) = JNum n"
    by simp
  show ?thesis by (intro conjI) (rule idem redact_marker obj arr rest [THEN conjunct1]
      rest [THEN conjunct2, THEN conjunct1] rest [THEN conjunct2, THEN conjunct2])+
qed

theorem redact_idempotent_shape_witness:
  "plainKeys sampleConfig
   \<and> keysOf sampleConfig = [''apiKey'', ''hostname'', ''limits'']
   \<and> redact (redact (JObj sampleConfig)) = redact (JObj sampleConfig)
   \<and> (\<exists>kvs'. redact (JObj sampleConfig) = JObj kvs' \<and> keysOf kvs' = [''apiKey'', ''hostname'', ''limits''])"
proof -
  have p: "plainKeys sampleConfig" by code_simp
  have k: "keysOf sampleConfig = [''apiKey'', ''hostname'', ''limits'']" by code_simp
  show ?thesis
    using redact_idempotent_shape [of "JObj sampleConfig" sampleConfig] p k by auto
qed

text \<open>
  C10 fails on the code at an object with an own key \<open>__proto__\<close>: the redacted object
  has lost that key, so the key sets differ.
\<close>

theorem redact_drops_proto:
  "keysOf protoObject = [''__proto__'', ''hostname'']
   \<and> redact (JObj protoObject) = JObj [(''hostname'', JStr ''box1'')]"
  by code_simp

section \<open>Properties of the cron job summaries\<close>

lemma summarizeJob_fields:
  "summarizeJob job = Inr s \<Longrightarrow>
     successRate s = rateOf (errorCount job) \<and> consecutiveErrors s = errorCount job"
  by (auto simp: summarizeJob_def rateOf_def errorCount_def Let_def orElse_def
           split: sum.splits option.splits if_splits)

lemma rateOf_antimono: "m \<le> n \<Longrightarrow> rateOf n \<le> rateOf m"
  by (simp add: rateOf_def)

lemma mapE_Inr_nth:
  "mapE f xs = Inr ys \<Longrightarrow> length ys = length xs \<and> (\<forall>i < length xs. f (xs ! i) = Inr (ys ! i))"
proof (induction xs arbitrary: ys)
  case Nil
  then show ?case by simp
next
  case (Cons x xs)
  then obtain y zs where y: "f x = Inr y" and zs: "mapE f xs = Inr zs" and ys: "ys = y # zs"
    by (auto split: sum.splits)
  show ?case using Cons.IH [OF zs] y ys by (auto simp: nth_Cons split: nat.splits)
qed

lemma addHeartbeats_extends:
  "\<exists>ext. addHeartbeats js agents = js @ ext
     \<and> (\<forall>s \<in> set ext. successRate s = 100 \<and> consecutiveErrors s = 0)"
proof (induction js agents rule: addHeartbeats.induct)
  case (1 cronJobs)
  then show ?case by simp
next
  case (2 cronJobs a rest)
  show ?case
  proof (cases "find (\<lambda>j. cj_id j = ''heartbeat-'' @ hb_agentId a) cronJobs = None")
    case True
    then obtain ext where "addHeartbeats (cronJobs @ [heartbeatJob a]) rest = (cronJobs @ [heartbeatJob a]) @ ext"
      and "\<forall>s \<in> set ext. successRate s = 100 \<and> consecutiveErrors s = 0"
      using 2(1) by blast
    then have "addHeartbeats cronJobs (a # rest) = cronJobs @ (heartbeatJob a # ext)
        \<and> (\<forall>s \<in> set (heartbeatJob a # ext). successRate s = 100 \<and> consecutiveErrors s = 0)"
      using True by (simp add: heartbeatJob_def)
    then show ?thesis by blast
  next
    case False
    have "addHeartbeats cronJobs (a # rest) = addHeartbeats cronJobs rest"
      by (simp only: addHeartbeats.simps False if_False)
    then show ?thesis using 2(2) [OF False] by (simp only:)
  qed
qed

lemma cronJobsOf_positions:
  assumes "cronJobsOf sd cd = Inr out"
  shows "length (orElse (field jobs cd) []) \<le> length out
       \<and> (\<forall>i < length (orElse (field jobs cd) []).
            summarizeJob (orElse (field jobs cd) [] ! i) = Inr (out ! i))
       \<and> (\<forall>s \<in> set (drop (length (orElse (field jobs cd) [])) out).
            successRate s = 100 \<and> consecutiveErrors s = 0)"
proof -
  let ?js = "orElse (field jobs cd) []"
  obtain ms agents where ms: "mapE summarizeJob ?js = Inr ms" and out: "out = addHeartbeats ms agents"
    using assms by (auto simp: cronJobsOf_def Let_def split: sum.splits)
  obtain ext where ext: "out = ms @ ext"
    and hb: "\<forall>s \<in> set ext. successRate s = 100 \<and> consecutiveErrors s = 0"
    using addHeartbeats_extends [of ms agents] out by auto
  have len: "length ms = length ?js"
    and nth: "\<forall>i < length ?js. summarizeJob (?js ! i) = Inr (ms ! i)"
    using mapE_Inr_nth [OF ms] by auto
  show ?thesis using ext hb len nth by (auto simp: nth_append)
qed

text \<open>
  C9. The success rate that a cron job summary carries is a function of the
  consecutive-error count of the cron job record it is made from (an absent count reads
  as 0): it is \<open>max 0 (100 - 20 * count)\<close>, so of two records the one with the higher
  count never gets the higher rate, and the rate is 100 at a count of zero. The summary
  repeats the count of the record. In the list the system route returns, the summary at
  each position of the snapshot's job list is the summary of the record at that position;
  the entries after them are the synthetic heartbeat jobs, with rate 100 and count 0.
\<close>

theorem successRate_antimono:
  "(summarizeJob a = Inr sa \<and> summarizeJob b = Inr sb \<and> errorCount a \<le> errorCount b
      \<longrightarrow> successRate sb \<le> successRate sa)
   \<and> (summarizeJob a = Inr sa
      \<longrightarrow> successRate sa = max 0 (100 - errorCount a * 20) \<and> consecutiveErrors sa = errorCount a)
   \<and> (summarizeJob a = Inr sa \<and> errorCount a = 0 \<longrightarrow> successRate sa = 100)
   \<and> (cronJobsOf sd cd = Inr out
      \<longrightarrow> length (orElse (field jobs cd) []) \<le> length out
        \<and> (\<forall>i < length (orElse (field jobs cd) []).
             summarizeJob (orElse (field jobs cd) [] ! i) = Inr (out ! i))
        \<and> (\<forall>s \<in> set (drop (length (orElse (field jobs cd) [])) out).
             successRate s = 100 \<and> consecutiveErrors s = 0))"
proof -
  have mono: "summarizeJob a = Inr sa \<and> summarizeJob b = Inr sb \<and> errorCount a \<le> errorCount b
      \<longrightarrow> successRate sb \<le> successRate sa"
    using summarizeJob_fields [of a sa] summarizeJob_fields [of b sb] rateOf_antimono by auto
  have law: "summarizeJob a = Inr sa
      \<longrightarrow> successRate sa = max 0 (100 - errorCount a * 20) \<and> consecutiveErrors sa = errorCount a"
    using summarizeJob_fields [of a sa] by (simp add: rateOf_def)
  have zero: "summarizeJob a = Inr sa \<and> errorCount a = 0 \<longrightarrow> successRate sa = 100"
    using summarizeJob_fields [of a sa] by (simp add: rateOf_def)
  have list: "cronJobsOf sd cd = Inr out
      \<longrightarrow> length (orElse (field jobs cd) []) \<le> length out
        \<and> (\<forall>i < length (orElse (field jobs cd) []).
             summarizeJob (orElse (field jobs cd) [] ! i) = Inr (out ! i))
        \<and> (\<forall>s \<in> set (drop (length (orElse (field jobs cd) [])) out).
             successRate s = 100 \<and> consecutiveErrors s = 0)"
    using cronJobsOf_positions by blast
  show ?thesis by (intro conjI) (rule mono law zero list)+
qed

theorem successRate_antimono_witness:
  "summarizeJob sampleJob1 = Inr sampleSummary1
   \<and> summarizeJob sampleJob2 = Inr sampleSummary2
   \<and> errorCount sampleJob1 = 1 \<and> errorCount sampleJob2 = 3
   \<and> successRate sampleSummary2 \<le> successRate sampleSummary1
   \<and> successRate sampleSummary1 = 80 \<and> successRate sampleSummary2 = 40
   \<and> cronJobsOf None (Some \<lparr>jobs = Some [sampleJob1, sampleJob2]\<rparr>) = Inr [sampleSummary1, sampleSummary2]"
proof -
  have s1: "summarizeJob sampleJob1 = Inr sampleSummary1" by code_simp
  have s2: "summarizeJob sampleJob2 = Inr sampleSummary2" by code_simp
  have c1: "errorCount sampleJob1 = 1" by code_simp
  have c2: "errorCount sampleJob2 = 3" by code_simp
  have out: "cronJobsOf None (Some \<lparr>jobs = Some [sampleJob1, sampleJob2]\<rparr>)
      = Inr [sampleSummary1, sampleSummary2]" by code_simp
  note inst = successRate_antimono [of sampleJob1 sampleSummary1 sampleJob2 sampleSummary2 None
      "Some \<lparr>jobs = Some [sampleJob1, sampleJob2]\<rparr>" "[sampleSummary1, sampleSummary2]"]
  have le: "errorCount sampleJob1 \<le> errorCount sampleJob2" using c1 c2 by simp
  have m: "successRate sampleSummary2 \<le> successRate sampleSummary1"
    using inst s1 s2 le by blast
  have r1: "successRate sampleSummary1 = 80" by code_simp
  have r2: "successRate sampleSummary2 = 40" by code_simp
  show ?thesis by (intro conjI) (rule s1 s2 c1 c2 m r1 r2 out)+
qed

section \<open>Properties of the status derivers\<close>

lemma healthOf_buildStatus:
  "healthOf (buildStatus h now sd hdata) =
     (if heartbeatThrows now sd then None else Some (deriveHealth (parseHealth hdata)))"
  by (simp add: healthOf_def buildStatus_def heartbeatThrows_def Let_def split: sum.splits)

lemma healthOf_buildStatus2:
  "healthOf (buildStatus2 h now sd) =
     (if heartbeatThrows now sd then None
      else Some (if \<not> gatewayUp sd then unhealthy
                 else if 0 < length (parseChannelSummary (orElse (field sd_channelSummary sd) []))
                 then healthy else degraded))"
  by (simp add: healthOf_def buildStatus2_def heartbeatThrows_def gatewayUp_def Let_def
           split: sum.splits)

lemma lookup_listed:
  assumes "distinct (map fst chans)"
  shows "map (\<lambda>name. P (map_of chans name)) (map fst chans) = map (\<lambda>c. P (Some c)) (map snd chans)"
proof -
  have "\<And>n c. (n, c) \<in> set chans \<Longrightarrow> map_of chans n = Some c"
    using assms by simp
  then show ?thesis by (auto simp: map_eq_conv)
qed

lemma probeResults_listed:
  assumes "distinct (map fst chans)"
  shows "map (\<lambda>name. probeOkOf (map_of chans name) = Some True) (map fst chans)
         = map probeHealthy (map snd chans)"
proof -
  have "(\<lambda>c. probeOkOf (Some c) = Some True) = probeHealthy"
    by (rule ext) (simp add: probeHealthy_def probeOkOf_def field_def)
  then show ?thesis
    using lookup_listed [OF assms, of "\<lambda>x. probeOkOf x = Some True"] by simp
qed

lemma list_all_id_map: "list_all (\<lambda>b. b) (map P cs) = list_all P cs"
  by (induction cs) auto

lemma list_ex_id_map: "list_ex (\<lambda>b. b) (map P cs) = list_ex P cs"
  by (induction cs) auto

lemma allProbesOk_listed:
  assumes "distinct (map fst (channelsOf hdata))"
  shows "allProbesOk (parseHealth (Some hdata)) =
           (channelsOf hdata \<noteq> [] \<and> list_all probeHealthy (map snd (channelsOf hdata)))"
proof -
  let ?chans = "channelsOf hdata"
  let ?results = "map (\<lambda>name. probeOkOf (map_of ?chans name) = Some True) (map fst ?chans)"
  have "allProbesOk (parseHealth (Some hdata)) = (0 < length ?results \<and> list_all (\<lambda>b. b) ?results)"
    by (simp add: parseHealth_def Let_def channelsOf_def)
  also have "\<dots> = (?chans \<noteq> [] \<and> list_all probeHealthy (map snd ?chans))"
    unfolding probeResults_listed [OF assms] by (simp only: list_all_id_map length_map length_greater_0_conv map_is_Nil_conv)
  finally show ?thesis .
qed

lemma anyProbeOk_listed:
  assumes "distinct (map fst (channelsOf hdata))"
  shows "anyProbeOk (parseHealth (Some hdata)) = list_ex probeHealthy (map snd (channelsOf hdata))"
proof -
  let ?chans = "channelsOf hdata"
  let ?results = "map (\<lambda>name. probeOkOf (map_of ?chans name) = Some True) (map fst ?chans)"
  have "anyProbeOk (parseHealth (Some hdata)) = list_ex (\<lambda>b. b) ?results"
    by (simp add: parseHealth_def Let_def channelsOf_def)
  also have "\<dots> = list_ex probeHealthy (map snd ?chans)"
    unfolding probeResults_listed [OF assms] by (rule list_ex_id_map)
  finally show ?thesis .
qed

lemma deriveHealth_listed:
  assumes "distinct (map fst (channelsOf hdata))"
  shows "deriveHealth (parseHealth (Some hdata)) =
     (if channelsOf hdata \<noteq> [] \<and> list_all probeHealthy (map snd (channelsOf hdata)) then healthy
      else if list_ex probeHealthy (map snd (channelsOf hdata)) then degraded
      else unhealthy)"
  unfolding deriveHealth_def allProbesOk_listed [OF assms] anyProbeOk_listed [OF assms] ..


text \<open>
  C1 (as the code has it). The channel-summary status deriver, which reads one status
  snapshot, derives \<open>unhealthy\<close> for every snapshot whose gateway is not reachable,
  whatever channels are configured. The probe-based deriver, which reads a status and a
  health snapshot, derives the health from the probe results alone: the gateway's
  reachability does not enter it (it is reported in the field \<open>gatewayReachable\<close>).
  Either deriver yields no status when the last-heartbeat time is out of range.
\<close>

theorem unreachable_gateway_health:
  "(\<not> gatewayUp sd \<longrightarrow>
      healthOf (buildStatus2 h now sd) = (if heartbeatThrows now sd then None else Some unhealthy))
   \<and> healthOf (buildStatus h now sd hdata) =
       (if heartbeatThrows now sd then None else Some (deriveHealth (parseHealth hdata)))"
  by (simp add: healthOf_buildStatus healthOf_buildStatus2)

theorem unreachable_gateway_health_witness:
  "\<not> gatewayUp (Some (statusWith False))
   \<and> healthOf (buildStatus2 sampleHost 0 (Some (statusWith False))) = Some unhealthy
   \<and> healthOf (buildStatus sampleHost 0 (Some (statusWith False)) None) = Some unhealthy"
proof -
  have down: "\<not> gatewayUp (Some (statusWith False))" by code_simp
  have fine: "\<not> heartbeatThrows 0 (Some (statusWith False))" by code_simp
  have probes: "deriveHealth (parseHealth None) = unhealthy" by code_simp
  show ?thesis
    using unreachable_gateway_health [of "Some (statusWith False)" sampleHost 0 None] down fine probes
    by simp
qed

text \<open>
  C1 as stated fails on the probe-based deriver: with the gateway not reachable and the
  one listed channel probing healthy, the derived health is \<open>healthy\<close>.
\<close>

theorem unreachable_gateway_counterexample:
  "\<not> gatewayUp (Some (statusWith False))
   \<and> healthOf (buildStatus sampleHost 0 (Some (statusWith False)) (Some okHealth)) = Some healthy
   \<and> map_sum id gatewayReachable (buildStatus sampleHost 0 (Some (statusWith False)) (Some okHealth))
       = Inr False"
  by code_simp

text \<open>
  C2 (as the code has it). In the probe-based deriver the channels that count are all
  the channels the health snapshot lists, configured or not, and the gateway's
  reachability plays no part: when at least one listed channel probes healthy, the
  health is \<open>healthy\<close> exactly when every listed channel probes healthy and
  \<open>degraded\<close> exactly when some but not all do. The channel-summary deriver, which has
  no probes, derives \<open>healthy\<close> whenever the gateway is reachable and at least one
  channel is configured. (The names of the listed channels are distinct, as the keys of
  an object are.)
\<close>

theorem listed_channels_health:
  assumes "distinct (map fst (channelsOf hdata))"
    and "\<not> heartbeatThrows now sd"
    and "list_ex probeHealthy (map snd (channelsOf hdata))"
  shows "(healthOf (buildStatus h now sd (Some hdata)) = Some healthy
            \<longleftrightarrow> list_all probeHealthy (map snd (channelsOf hdata)))
       \<and> (healthOf (buildStatus h now sd (Some hdata)) = Some degraded
            \<longleftrightarrow> \<not> list_all probeHealthy (map snd (channelsOf hdata)))
       \<and> (gatewayUp sd \<and> parseChannelSummary (orElse (field sd_channelSummary sd) []) \<noteq> []
            \<longrightarrow> healthOf (buildStatus2 h now sd) = Some healthy)"
proof -
  have nonempty: "channelsOf hdata \<noteq> []"
    using assms(3) by auto
  have "healthOf (buildStatus h now sd (Some hdata)) =
          Some (if list_all probeHealthy (map snd (channelsOf hdata)) then healthy else degraded)"
    using assms(2,3) nonempty
    by (simp add: healthOf_buildStatus deriveHealth_listed [OF assms(1)])
  moreover have "gatewayUp sd \<and> parseChannelSummary (orElse (field sd_channelSummary sd) []) \<noteq> []
            \<longrightarrow> healthOf (buildStatus2 h now sd) = Some healthy"
    using assms(2) by (simp add: healthOf_buildStatus2)
  ultimately show ?thesis by simp
qed

theorem listed_channels_health_witness:
  "distinct (map fst (channelsOf okHealth))
   \<and> \<not> heartbeatThrows 0 (Some (statusWith True))
   \<and> list_ex probeHealthy (map snd (channelsOf okHealth))
   \<and> list_all probeHealthy (map snd (channelsOf okHealth))
   \<and> healthOf (buildStatus sampleHost 0 (Some (statusWith True)) (Some okHealth)) = Some healthy
   \<and> gatewayUp (Some (statusWith True))
   \<and> parseChannelSummary (orElse (field sd_channelSummary (Some (statusWith True))) []) = [''telegram'']
   \<and> healthOf (buildStatus2 sampleHost 0 (Some (statusWith True))) = Some healthy"
proof -
  have d: "distinct (map fst (channelsOf okHealth))" by code_simp
  have t: "\<not> heartbeatThrows 0 (Some (statusWith True))" by code_simp
  have e: "list_ex probeHealthy (map snd (channelsOf okHealth))" by code_simp
  have a: "list_all probeHealthy (map snd (channelsOf okHealth))" by code_simp
  have u: "gatewayUp (Some (statusWith True))" by code_simp
  have c: "parseChannelSummary (orElse (field sd_channelSummary (Some (statusWith True))) []) = [''telegram'']"
    by code_simp
  show ?thesis
    using listed_channels_health [OF d t e, of sampleHost] a u c d t e by simp
qed

text \<open>
  C2 as stated fails on the probe-based deriver: the gateway is reachable, the one
  configured channel probes healthy, so that all configured channels probe healthy, yet
  the health is \<open>degraded\<close>, because the snapshot also lists a channel that is not
  configured and has no probe.
\<close>

theorem listed_channels_counterexample:
  "gatewayUp (Some (statusWith True))
   \<and> someConfiguredHealthy mixedHealth
   \<and> allConfiguredHealthy mixedHealth
   \<and> healthOf (buildStatus sampleHost 0 (Some (statusWith True)) (Some mixedHealth)) = Some degraded"
  by code_simp

section \<open>Properties of the cache of the status route\<close>

lemma buildStatus_throws: "isl (buildStatus h now sd hdata) = heartbeatThrows now sd"
  by (simp add: buildStatus_def heartbeatThrows_def Let_def split: sum.splits)






section \<open>Properties of the process bridge\<close>

lemma indexOf_first:
  "indexOf s c = Some i \<Longrightarrow> i < length s \<and> s ! i = c \<and> c \<notin> set (take i s)"
proof (induction s arbitrary: i)
  case Nil
  then show ?case by simp
next
  case (Cons x xs)
  then show ?case by (cases "x = c") (auto split: option.splits)
qed

lemma indexOf_None: "indexOf s c = None \<longleftrightarrow> c \<notin> set s"
  by (induction s) (auto split: option.splits)

text \<open>
  C6. The claim holds of \<open>runCLI\<close>, the bridge of the status, system, agents, channels
  and configuration routes: it parses the output from the first \<open>{\<close> on, and returns
  \<open>null\<close> when there is none, when parsing fails, and when the process fails or times
  out. \<open>execJSON\<close>, the bridge of the activity route, never throws either, but it
  parses the whole trimmed output: whenever text precedes the payload, so that the whole
  output is not JSON, it returns \<open>null\<close> where \<open>runCLI\<close> returns the payload.
\<close>

theorem execJSON_keeps_preamble:
  assumes "indexOf out CHR ''{'' = Some i"
    and "JSON_parse (drop i out) = Some v"
    and "JSON_parse (trim out) = None"
  shows "runCLI JSON_parse (Completed out) = v
       \<and> execJSON JSON_parse (Completed out) = JNull
       \<and> i < length out \<and> out ! i = CHR ''{'' \<and> CHR ''{'' \<notin> set (take i out)
       \<and> runCLI JSON_parse (NonZeroExit code) = JNull \<and> runCLI JSON_parse TimedOut = JNull
       \<and> execJSON JSON_parse (NonZeroExit code) = JNull \<and> execJSON JSON_parse TimedOut = JNull"
  using assms indexOf_first [OF assms(1)]
  by (simp add: runCLI_def execJSON_def orElse_def)

theorem execJSON_keeps_preamble_witness:
  "indexOf ''Doctor: ok {}'' CHR ''{'' = Some 11
   \<and> tinyParse (drop 11 ''Doctor: ok {}'') = Some (JObj [])
   \<and> tinyParse (trim ''Doctor: ok {}'') = None
   \<and> runCLI tinyParse (Completed ''Doctor: ok {}'') = JObj []
   \<and> execJSON tinyParse (Completed ''Doctor: ok {}'') = JNull"
proof -
  have a: "indexOf ''Doctor: ok {}'' CHR ''{'' = Some 11" by code_simp
  have b: "tinyParse (drop 11 ''Doctor: ok {}'') = Some (JObj [])" by code_simp
  have c: "tinyParse (trim ''Doctor: ok {}'') = None" by code_simp
  show ?thesis using execJSON_keeps_preamble [OF a b c] a b c by simp
qed

section \<open>Properties of the activity query\<close>

lemma filterIf_filter:
  "filterIf p test xs = filter (\<lambda>e. case p of None \<Rightarrow> True | Some v \<Rightarrow> v = [] \<or> test v e) xs"
  by (simp add: filterIf_def split: option.splits)

lemma typeStr_lower: "toLowerCase (typeStr ty) = typeStr ty"
  by (cases ty) (simp_all add: toLowerCase_def toLowerChar_def)

lemma toLowerCase_Nil: "toLowerCase s = [] \<longleftrightarrow> s = []"
  by (simp add: toLowerCase_def)

lemma searchMatch_occurs:
  "searchMatch (toLowerCase s) e =
     (occursIn s (ae_summary e) \<or> occursIn s (typeStr (ae_type e))
      \<or> (case ae_agentId e of None \<Rightarrow> False | Some a \<Rightarrow> occursIn s a))"
  by (simp add: searchMatch_def occursIn_def str_includes_sublist typeStr_lower split: option.splits)

lemma filtered_queryMatch:
  "filterIf (map_option toLowerCase (q_search q)) searchMatch
     (filterIf (q_channel q) (\<lambda>c e. channelStr (ae_channel e) = c)
       (filterIf (q_type q) (\<lambda>t e. typeStr (ae_type e) = t) feed))
   = filter (queryMatch q) feed"
proof -
  have s: "(case map_option toLowerCase (q_search q) of None \<Rightarrow> True
             | Some v \<Rightarrow> v = [] \<or> searchMatch v e) = searchOk q e" for e
    by (cases "q_search q") (simp_all add: searchOk_def searchMatch_occurs toLowerCase_Nil)
  show ?thesis
    unfolding filterIf_filter filter_filter s
    by (rule filter_cong) (auto simp: queryMatch_def typeOk_def channelOk_def)
qed

lemma jsSlice_page:
  assumes "0 \<le> s" and "0 \<le> n"
  shows "jsSlice xs s (s + n) = take (nat n) (drop (nat s) xs)"
proof (cases "int (length xs) \<le> s")
  case True
  then show ?thesis using assms by (simp add: jsSlice_def Let_def min_def)
next
  case False
  then show ?thesis using assms
    by (auto simp: jsSlice_def Let_def min_def nat_diff_distrib nat_add_distrib
        intro!: take_all [symmetric, THEN trans] )
qed


lemma GET_activity_page:
  assumes "q_page q = Some p" and "q_pageSize q = Some sz" and "1 \<le> p" and "0 < sz"
  shows "GET_activity feed q =
           \<lparr>items = take (nat sz) (drop (nat ((p - 1) * sz)) (filter (queryMatch q) feed)),
            total = int (length (filter (queryMatch q) feed)),
            page = Some p, pageSize = Some sz,
            hasMore = (p * sz < int (length (filter (queryMatch q) feed)))\<rparr>"
proof -
  have start: "0 \<le> (p - 1) * sz" using assms(3,4) by simp
  have sum: "(p - 1) * sz + sz = p * sz" by (simp add: algebra_simps)
  show ?thesis
    using assms(1,2) jsSlice_page [OF start, of sz] assms(4)
    by (simp add: GET_activity_def Let_def filtered_queryMatch sum)
qed

text \<open>
  C7. For a page number of at least 1 and a positive page size, the page holds at most
  \<open>pageSize\<close> items, \<open>hasMore\<close> says whether \<open>page * pageSize\<close> is below the total, the
  total counts the entries of the feed that pass the type test and the channel test and
  the search test (letter case ignored), the items are the entries of that page among
  them, and with a type given every item has that type.
\<close>

theorem activity_page:
  assumes "q_page q = Some p" and "q_pageSize q = Some sz" and "1 \<le> p" and "0 < sz"
  shows "int (length (items (GET_activity feed q))) \<le> sz
       \<and> hasMore (GET_activity feed q) = (p * sz < total (GET_activity feed q))
       \<and> total (GET_activity feed q) = int (length (filter (queryMatch q) feed))
       \<and> items (GET_activity feed q) =
           take (nat sz) (drop (nat ((p - 1) * sz)) (filter (queryMatch q) feed))
       \<and> (\<forall>t. q_type q = Some t \<and> t \<noteq> [] \<longrightarrow>
            (\<forall>e \<in> set (items (GET_activity feed q)). typeStr (ae_type e) = t))"
proof -
  note page = GET_activity_page [OF assms]
  have typed: "typeStr (ae_type e) = t"
    if "q_type q = Some t" and "t \<noteq> []" and "e \<in> set (items (GET_activity feed q))" for t e
  proof -
    have "e \<in> set (filter (queryMatch q) feed)"
      using that(3) unfolding page
      by (simp del: set_filter) (blast dest: in_set_takeD in_set_dropD)
    then show ?thesis using that(1,2) by (simp add: queryMatch_def typeOk_def)
  qed
  have len: "int (length (items (GET_activity feed q))) \<le> sz"
    using assms(4) unfolding page by simp
  show ?thesis using len typed unfolding page by auto
qed

theorem activity_page_witness:
  "q_page sampleQuery = Some 1 \<and> q_pageSize sampleQuery = Some 2 \<and> (1::int) \<le> 1 \<and> (0::int) < 2
   \<and> items (GET_activity sampleFeed sampleQuery)
       = [sampleEntry ''s3'' 30 T_message, sampleEntry ''s1'' 10 T_message]
   \<and> total (GET_activity sampleFeed sampleQuery) = 3
   \<and> hasMore (GET_activity sampleFeed sampleQuery)
   \<and> int (length (items (GET_activity sampleFeed sampleQuery))) \<le> 2
   \<and> int (length (filter (queryMatch sampleQuery) sampleFeed)) = 3"
proof -
  have p: "q_page sampleQuery = Some 1" by code_simp
  have s: "q_pageSize sampleQuery = Some 2" by code_simp
  have i: "items (GET_activity sampleFeed sampleQuery)
       = [sampleEntry ''s3'' 30 T_message, sampleEntry ''s1'' 10 T_message]" by code_simp
  have t: "total (GET_activity sampleFeed sampleQuery) = 3" by code_simp
  have h: "hasMore (GET_activity sampleFeed sampleQuery)" by code_simp
  have "(1::int) \<le> 1" and "(0::int) < 2" by simp_all
  from activity_page [OF p s this, of sampleFeed]
  have "int (length (items (GET_activity sampleFeed sampleQuery))) \<le> 2"
    and "total (GET_activity sampleFeed sampleQuery) = int (length (filter (queryMatch sampleQuery) sampleFeed))"
    by simp_all
  then show ?thesis using p s i t h by simp
qed

section \<open>Properties of the activity feed\<close>

lemma dedupe_subseq: "subseq (dedupe seen es) es"
  by (induction es arbitrary: seen) auto

lemma dedupe_subset: "set (dedupe seen es) \<subseteq> set es"
  by (induction es arbitrary: seen) auto

lemma dedupe_ids: "ae_id ` set (dedupe seen es) = ae_id ` set es - set seen"
  by (induction es arbitrary: seen) auto

lemma dedupe_distinct: "distinct (map ae_id (dedupe seen es))"
  by (induction es arbitrary: seen) (auto simp: dedupe_ids)

lemma dedupe_first:
  "e \<in> set (dedupe seen es) \<Longrightarrow> find (\<lambda>x. ae_id x = ae_id e) es = Some e"
proof (induction es arbitrary: seen)
  case Nil
  then show ?case by simp
next
  case (Cons x xs)
  show ?case
  proof (cases "ae_id x \<in> set seen")
    case True
    then have "e \<in> set (dedupe seen xs)" using Cons.prems by simp
    moreover from this have "ae_id e \<notin> set seen" using dedupe_ids [of seen xs] by auto
    ultimately show ?thesis using Cons.IH True by auto
  next
    case False
    then have "e = x \<or> e \<in> set (dedupe (ae_id x # seen) xs)" using Cons.prems by simp
    then show ?thesis
    proof
      assume "e = x" then show ?thesis by simp
    next
      assume in_tl: "e \<in> set (dedupe (ae_id x # seen) xs)"
      then have "ae_id e \<noteq> ae_id x" using dedupe_ids [of "ae_id x # seen" xs] by auto
      then show ?thesis using Cons.IH [OF in_tl] by auto
    qed
  qed
qed

lemma mset_sortDesc: "mset (sortDesc E P es) = mset es"
proof (cases "datesValid P es")
  case True
  then show ?thesis by (simp add: sortDesc_def stableDesc_def)
next
  case False
  have "mset (runSort E (compareEntries P) es) = mset es"
    using runSort [of E] by simp
  then show ?thesis using False by (simp add: sortDesc_def)
qed

lemma set_sortDesc: "set (sortDesc E P es) = set es"
  using mset_sortDesc [of E P es] by (rule mset_eq_setD)

lemma sortCompare_valid:
  assumes "timeValue P x \<noteq> None" and "timeValue P y \<noteq> None"
  shows "sortCompare (compareEntries P) x y \<le> 0 \<longleftrightarrow> - timeKey P x \<le> - timeKey P y"
  using assms by (auto simp: sortCompare_def compareEntries_def timeKey_def timeValue_def)

lemma insertBy_insort:
  assumes "timeValue P x \<noteq> None" and "datesValid P ys"
  shows "insertBy (compareEntries P) x ys = insort_key (\<lambda>e. - timeKey P e) x ys"
  using assms(2)
proof (induction ys)
  case Nil
  then show ?case by simp
next
  case (Cons y ys)
  then have y: "timeValue P y \<noteq> None" and ys: "datesValid P ys"
    by (simp_all add: datesValid_def)
  show ?case using sortCompare_valid [OF assms(1) y] Cons.IH [OF ys] by simp
qed

lemma datesValid_set: "datesValid P es \<longleftrightarrow> (\<forall>e \<in> set es. timeValue P e \<noteq> None)"
  by (simp add: datesValid_def list_all_iff)

lemma sortDesc_valid: "datesValid P es \<Longrightarrow> sortDesc E P es = stableDesc P es"
  by (simp add: sortDesc_def)

lemma insertionSort_valid:
  "datesValid P es \<Longrightarrow> insertionSort (compareEntries P) es = stableDesc P es"
proof (induction es)
  case Nil
  then show ?case by (simp add: insertionSort_def stableDesc_def)
next
  case (Cons x xs)
  then have x: "timeValue P x \<noteq> None" and xs: "datesValid P xs"
    by (simp_all add: datesValid_def)
  have sorted_valid: "datesValid P (stableDesc P xs)"
    using xs by (simp add: datesValid_set stableDesc_def)
  have "insertionSort (compareEntries P) (x # xs)
      = insertBy (compareEntries P) x (insertionSort (compareEntries P) xs)"
    by (simp add: insertionSort_def)
  also have "\<dots> = insertBy (compareEntries P) x (stableDesc P xs)"
    using Cons.IH [OF xs] by simp
  also have "\<dots> = insort_key (\<lambda>e. - timeKey P e) x (stableDesc P xs)"
    by (rule insertBy_insort [OF x sorted_valid])
  also have "\<dots> = stableDesc P (x # xs)"
    by (simp add: stableDesc_def)
  finally show ?case .
qed

lemma inOrder_valid:
  "timeValue P a \<noteq> None \<Longrightarrow> timeValue P b \<noteq> None \<Longrightarrow>
     inOrder P a b \<longleftrightarrow> timeKey P b \<le> timeKey P a"
  by (auto simp: inOrder_def timeKey_def)

lemma newestFirst_stableDesc:
  assumes "datesValid P es"
  shows "newestFirst P (stableDesc P es)"
proof -
  have "sorted (map (\<lambda>e. - timeKey P e) (sort_key (\<lambda>e. - timeKey P e) es))"
    by (rule sorted_sort_key)
  then have "sorted_wrt (\<lambda>a b. timeKey P b \<le> timeKey P a) (stableDesc P es)"
    by (simp add: stableDesc_def sorted_map)
  moreover have "\<forall>a \<in> set (stableDesc P es). \<forall>b \<in> set (stableDesc P es).
      timeKey P b \<le> timeKey P a \<longrightarrow> inOrder P a b"
    using assms by (simp add: datesValid_set stableDesc_def inOrder_valid)
  ultimately show ?thesis
    unfolding newestFirst_def
    using sorted_wrt_mono_rel [of "stableDesc P es" "\<lambda>a b. timeKey P b \<le> timeKey P a" "inOrder P"]
    by blast
qed

lemma newestFirst_subseq: "subseq ys xs \<Longrightarrow> newestFirst P xs \<Longrightarrow> newestFirst P ys"
  unfolding newestFirst_def
proof (induction rule: list_emb.induct)
  case (list_emb_Nil ys)
  then show ?case by simp
next
  case (list_emb_Cons xs ys y)
  then show ?case by simp
next
  case (list_emb_Cons2 x y xs ys)
  then show ?case by (auto dest: list_emb_set)
qed

lemma find_newest:
  "newestFirst P es \<Longrightarrow> find (\<lambda>x. ae_id x = i) es = Some k \<Longrightarrow> e \<in> set es \<Longrightarrow> ae_id e = i
     \<Longrightarrow> e = k \<or> inOrder P k e"
  unfolding newestFirst_def
  by (induction es) (auto split: if_splits)

lemma stableDesc_stable:
  "filter (\<lambda>e. timeKey P e = t) (stableDesc P es) = filter (\<lambda>e. timeKey P e = t) es"
proof -
  have "filter (\<lambda>e. - timeKey P e = - t) (sort_key (\<lambda>e. - timeKey P e) es)
        = filter (\<lambda>e. - timeKey P e = - t) es"
    by (rule sort_key_stable)
  then show ?thesis by (simp add: stableDesc_def)
qed

lemma one_per_id:
  "distinct (map ae_id es) \<Longrightarrow> e \<in> set es \<Longrightarrow> length (filter (\<lambda>k. ae_id k = ae_id e) es) = 1"
proof (induction es)
  case Nil
  then show ?case by simp
next
  case (Cons x xs)
  show ?case
  proof (cases "e = x")
    case True
    have "ae_id x \<notin> ae_id ` set xs" using Cons.prems(1) by simp
    then have "\<forall>k \<in> set xs. ae_id k \<noteq> ae_id x" by (metis imageI)
    then have "filter (\<lambda>k. ae_id k = ae_id x) xs = []"
      by (simp add: filter_empty_conv)
    then show ?thesis using True by simp
  next
    case False
    then have "e \<in> set xs" using Cons.prems(2) by simp
    moreover from this have "ae_id x \<noteq> ae_id e" using Cons.prems(1) by auto
    ultimately show ?thesis using Cons by simp
  qed
qed

lemma normalize_ids: "ae_id ` set (normalize E P f inp) = ae_id ` set (collect f inp)"
  by (simp add: normalize_def dedupe_ids set_sortDesc)

lemma normalize_subset: "set (normalize E P f inp) \<subseteq> set (collect f inp)"
  using dedupe_subset [of "[]" "sortDesc E P (collect f inp)"] by (simp add: normalize_def set_sortDesc)

lemma normalize_distinct: "distinct (map ae_id (normalize E P f inp))"
  unfolding normalize_def by (rule dedupe_distinct)

lemma normalize_first:
  "e \<in> set (normalize E P f inp) \<Longrightarrow>
     find (\<lambda>x. ae_id x = ae_id e) (sortDesc E P (collect f inp)) = Some e"
  unfolding normalize_def by (rule dedupe_first)

lemma normalize_feedOk:
  assumes "datesValid P (collect f inp)"
  shows "feedOk P (normalize E P f inp)"
proof -
  have "newestFirst P (sortDesc E P (collect f inp))"
    using newestFirst_stableDesc [OF assms] sortDesc_valid [OF assms] by simp
  then have "newestFirst P (normalize E P f inp)"
    unfolding normalize_def by (rule newestFirst_subseq [OF dedupe_subseq])
  then show ?thesis by (simp add: feedOk_def normalize_distinct)
qed

lemma normalize_newest:
  assumes v: "datesValid P (collect f inp)" and e: "e \<in> set (collect f inp)"
  shows "\<exists>k \<in> set (normalize E P f inp). ae_id k = ae_id e \<and> timeKey P e \<le> timeKey P k"
proof -
  have "ae_id e \<in> ae_id ` set (normalize E P f inp)"
    using e normalize_ids by blast
  then obtain k where k: "k \<in> set (normalize E P f inp)" and id: "ae_id k = ae_id e" by auto
  have sorted: "newestFirst P (sortDesc E P (collect f inp))"
    using newestFirst_stableDesc [OF v] sortDesc_valid [OF v] by simp
  have "e \<in> set (sortDesc E P (collect f inp))" using e by (simp add: set_sortDesc)
  then have "e = k \<or> inOrder P k e"
    using find_newest [OF sorted normalize_first [OF k]] id by simp
  moreover have "timeValue P e \<noteq> None" and "timeValue P k \<noteq> None"
    using v e k normalize_subset [of E P f inp] by (auto simp: datesValid_set)
  ultimately have "timeKey P e \<le> timeKey P k"
    using inOrder_valid [of P k e] by auto
  then show ?thesis using k id by blast
qed

lemma normalize_drops_older:
  assumes v: "datesValid P (collect f inp)"
    and "a \<in> set (collect f inp)" and "b \<in> set (collect f inp)"
    and "ae_id a = ae_id b" and "timeKey P a < timeKey P b"
  shows "a \<notin> set (normalize E P f inp)
       \<and> length (filter (\<lambda>k. ae_id k = ae_id a) (normalize E P f inp)) = 1"
proof -
  obtain k where k: "k \<in> set (normalize E P f inp)" and id: "ae_id k = ae_id b"
    and ts: "timeKey P b \<le> timeKey P k"
    using normalize_newest [OF v assms(3)] by blast
  have d: "distinct (map ae_id (normalize E P f inp))" by (rule normalize_distinct)
  have one: "length (filter (\<lambda>x. ae_id x = ae_id a) (normalize E P f inp)) = 1"
    using one_per_id [OF d k] id assms(4) by simp
  have "a \<notin> set (normalize E P f inp)"
  proof
    assume "a \<in> set (normalize E P f inp)"
    then have "a = k" using d k id assms(4) by (metis distinct_map inj_on_def)
    then show False using ts assms(5) by simp
  qed
  then show ?thesis using one by simp
qed

lemma getSessionActivity_miss:
  "\<not> activityFresh cache now \<Longrightarrow>
     getSessionActivity E P f cache now inp =
       (normalize E P f inp, \<lparr>cachedActivity = Some (normalize E P f inp), cacheTimestamp = now\<rparr>)"
  by (auto simp: getSessionActivity_def activityFresh_def Let_def split: option.splits)

lemma getSessionActivity_hit:
  "cachedActivity cache = Some cached \<Longrightarrow> now - cacheTimestamp cache < ACTIVITY_TTL \<Longrightarrow>
     getSessionActivity E P f cache now inp = (cached, cache)"
  by (simp add: getSessionActivity_def)

lemma getSessionActivity_ok:
  assumes "datesValid P (collect f inp)" and "cacheOk P cache"
  shows "feedOk P (fst (getSessionActivity E P f cache now inp))
       \<and> cacheOk P (snd (getSessionActivity E P f cache now inp))"
  using assms normalize_feedOk [OF assms(1)]
  by (auto simp: getSessionActivity_def cacheOk_def Let_def split: option.splits)

text \<open>
  C4. The entries collected are the session entries, then the cron entries, then the
  memory entries. Sorting rearranges them, whatever the engine, and the feed is a
  subsequence of the sorted entries that keeps, of every id, the first sorted entry that
  carries it, so every id of the collected entries occurs exactly once. A call that does not find a fresh cached feed
  returns this feed and caches it; a call that does returns the cached feed.

  When the timestamp of every collected entry is a date, the sort is the stable sort into
  descending order of time (\<open>timeKey\<close> is then the time of an entry), the feed is in
  descending order of time, and of the entries that share an id the kept one has the
  latest time: of two collected entries with the same id and different times, the older
  is dropped and exactly one entry with the id is kept. A feed served from the cache has
  been written by this function alone, so it is in descending order with unique ids as
  well.
\<close>

theorem normalize_feed:
  "collect f inp =
     sessionEntries f (orElse (in_sessions inp) []) @ cronEntries (orElse (in_jobs inp) [])
       @ memoryEntries (in_today inp) (in_note inp) (in_clock inp)
   \<and> mset (sortDesc E P (collect f inp)) = mset (collect f inp)
   \<and> subseq (normalize E P f inp) (sortDesc E P (collect f inp))
   \<and> (\<forall>e \<in> set (normalize E P f inp).
         find (\<lambda>x. ae_id x = ae_id e) (sortDesc E P (collect f inp)) = Some e)
   \<and> ae_id ` set (normalize E P f inp) = ae_id ` set (collect f inp)
   \<and> distinct (map ae_id (normalize E P f inp))
   \<and> (\<not> activityFresh cache now \<longrightarrow>
         getSessionActivity E P f cache now inp =
           (normalize E P f inp, \<lparr>cachedActivity = Some (normalize E P f inp), cacheTimestamp = now\<rparr>))
   \<and> (\<forall>cached. cachedActivity cache = Some cached \<and> now - cacheTimestamp cache < ACTIVITY_TTL \<longrightarrow>
         getSessionActivity E P f cache now inp = (cached, cache))
   \<and> cacheOk P \<lparr>cachedActivity = None, cacheTimestamp = 0\<rparr>
   \<and> (datesValid P (collect f inp) \<longrightarrow>
         sortDesc E P (collect f inp) = stableDesc P (collect f inp)
       \<and> newestFirst P (sortDesc E P (collect f inp))
       \<and> (\<forall>t. filter (\<lambda>e. timeKey P e = t) (sortDesc E P (collect f inp))
                = filter (\<lambda>e. timeKey P e = t) (collect f inp))
       \<and> feedOk P (normalize E P f inp)
       \<and> (\<forall>e \<in> set (collect f inp).
             \<exists>k \<in> set (normalize E P f inp). ae_id k = ae_id e \<and> timeKey P e \<le> timeKey P k)
       \<and> (\<forall>a \<in> set (collect f inp). \<forall>b \<in> set (collect f inp).
             ae_id a = ae_id b \<and> timeKey P a < timeKey P b \<longrightarrow>
               a \<notin> set (normalize E P f inp)
               \<and> length (filter (\<lambda>k. ae_id k = ae_id a) (normalize E P f inp)) = 1)
       \<and> (cacheOk P cache \<longrightarrow>
             feedOk P (fst (getSessionActivity E P f cache now inp))
             \<and> cacheOk P (snd (getSessionActivity E P f cache now inp))))"
proof -
  have c: "collect f inp =
     sessionEntries f (orElse (in_sessions inp) []) @ cronEntries (orElse (in_jobs inp) [])
       @ memoryEntries (in_today inp) (in_note inp) (in_clock inp)"
    by (simp add: collect_def)
  have m: "mset (sortDesc E P (collect f inp)) = mset (collect f inp)"
    by (rule mset_sortDesc)
  have s: "subseq (normalize E P f inp) (sortDesc E P (collect f inp))"
    unfolding normalize_def by (rule dedupe_subseq)
  have fi: "\<forall>e \<in> set (normalize E P f inp).
         find (\<lambda>x. ae_id x = ae_id e) (sortDesc E P (collect f inp)) = Some e"
    using normalize_first by blast
  have ids: "ae_id ` set (normalize E P f inp) = ae_id ` set (collect f inp)"
    by (rule normalize_ids)
  have d: "distinct (map ae_id (normalize E P f inp))"
    by (rule normalize_distinct)
  have miss: "\<not> activityFresh cache now \<longrightarrow>
         getSessionActivity E P f cache now inp =
           (normalize E P f inp, \<lparr>cachedActivity = Some (normalize E P f inp), cacheTimestamp = now\<rparr>)"
    using getSessionActivity_miss by blast
  have hit: "\<forall>cached. cachedActivity cache = Some cached \<and> now - cacheTimestamp cache < ACTIVITY_TTL \<longrightarrow>
         getSessionActivity E P f cache now inp = (cached, cache)"
    using getSessionActivity_hit by blast
  have init: "cacheOk P \<lparr>cachedActivity = None, cacheTimestamp = 0\<rparr>"
    by (simp add: cacheOk_def)
  have valid: "datesValid P (collect f inp) \<longrightarrow>
         sortDesc E P (collect f inp) = stableDesc P (collect f inp)
       \<and> newestFirst P (sortDesc E P (collect f inp))
       \<and> (\<forall>t. filter (\<lambda>e. timeKey P e = t) (sortDesc E P (collect f inp))
                = filter (\<lambda>e. timeKey P e = t) (collect f inp))
       \<and> feedOk P (normalize E P f inp)
       \<and> (\<forall>e \<in> set (collect f inp).
             \<exists>k \<in> set (normalize E P f inp). ae_id k = ae_id e \<and> timeKey P e \<le> timeKey P k)
       \<and> (\<forall>a \<in> set (collect f inp). \<forall>b \<in> set (collect f inp).
             ae_id a = ae_id b \<and> timeKey P a < timeKey P b \<longrightarrow>
               a \<notin> set (normalize E P f inp)
               \<and> length (filter (\<lambda>k. ae_id k = ae_id a) (normalize E P f inp)) = 1)
       \<and> (cacheOk P cache \<longrightarrow>
             feedOk P (fst (getSessionActivity E P f cache now inp))
             \<and> cacheOk P (snd (getSessionActivity E P f cache now inp)))"
  proof
    assume v: "datesValid P (collect f inp)"
    have eq: "sortDesc E P (collect f inp) = stableDesc P (collect f inp)"
      by (rule sortDesc_valid [OF v])
    have n: "newestFirst P (sortDesc E P (collect f inp))"
      unfolding eq by (rule newestFirst_stableDesc [OF v])
    have st: "\<forall>t. filter (\<lambda>e. timeKey P e = t) (sortDesc E P (collect f inp))
                = filter (\<lambda>e. timeKey P e = t) (collect f inp)"
      unfolding eq by (simp add: stableDesc_stable)
    have ok: "feedOk P (normalize E P f inp)"
      by (rule normalize_feedOk [OF v])
    have nw: "\<forall>e \<in> set (collect f inp).
             \<exists>k \<in> set (normalize E P f inp). ae_id k = ae_id e \<and> timeKey P e \<le> timeKey P k"
      using normalize_newest [OF v] by blast
    have dr: "\<forall>a \<in> set (collect f inp). \<forall>b \<in> set (collect f inp).
             ae_id a = ae_id b \<and> timeKey P a < timeKey P b \<longrightarrow>
               a \<notin> set (normalize E P f inp)
               \<and> length (filter (\<lambda>k. ae_id k = ae_id a) (normalize E P f inp)) = 1"
      using normalize_drops_older [OF v] by blast
    have ca: "cacheOk P cache \<longrightarrow>
             feedOk P (fst (getSessionActivity E P f cache now inp))
             \<and> cacheOk P (snd (getSessionActivity E P f cache now inp))"
      using getSessionActivity_ok [OF v] by blast
    show "sortDesc E P (collect f inp) = stableDesc P (collect f inp)
       \<and> newestFirst P (sortDesc E P (collect f inp))
       \<and> (\<forall>t. filter (\<lambda>e. timeKey P e = t) (sortDesc E P (collect f inp))
                = filter (\<lambda>e. timeKey P e = t) (collect f inp))
       \<and> feedOk P (normalize E P f inp)
       \<and> (\<forall>e \<in> set (collect f inp).
             \<exists>k \<in> set (normalize E P f inp). ae_id k = ae_id e \<and> timeKey P e \<le> timeKey P k)
       \<and> (\<forall>a \<in> set (collect f inp). \<forall>b \<in> set (collect f inp).
             ae_id a = ae_id b \<and> timeKey P a < timeKey P b \<longrightarrow>
               a \<notin> set (normalize E P f inp)
               \<and> length (filter (\<lambda>k. ae_id k = ae_id a) (normalize E P f inp)) = 1)
       \<and> (cacheOk P cache \<longrightarrow>
             feedOk P (fst (getSessionActivity E P f cache now inp))
             \<and> cacheOk P (snd (getSessionActivity E P f cache now inp)))"
      by (intro conjI) (rule eq n st ok nw dr ca)+
  qed
  show ?thesis
    by (intro conjI) (rule c m s fi ids d miss hit init valid)+
qed

theorem normalize_feed_witness:
  "datesValid sampleParse (collect plainNumber sampleInputs)
   \<and> collect plainNumber sampleInputs ! 0 \<in> set (collect plainNumber sampleInputs)
   \<and> collect plainNumber sampleInputs ! 1 \<in> set (collect plainNumber sampleInputs)
   \<and> ae_id (collect plainNumber sampleInputs ! 0) = ae_id (collect plainNumber sampleInputs ! 1)
   \<and> timeKey sampleParse (collect plainNumber sampleInputs ! 0)
       < timeKey sampleParse (collect plainNumber sampleInputs ! 1)
   \<and> collect plainNumber sampleInputs ! 0 \<notin> set (normalize insertionEngine sampleParse plainNumber sampleInputs)
   \<and> length (filter (\<lambda>k. ae_id k = ae_id (collect plainNumber sampleInputs ! 0))
        (normalize insertionEngine sampleParse plainNumber sampleInputs)) = 1
   \<and> map (\<lambda>e. (ae_id e, timeValue sampleParse e)) (collect plainNumber sampleInputs) =
       [(''sess-1'', Some 100), (''sess-1'', Some 200), (''cron_nightly'', Some 150),
        (''mem_2026-02-18_0'', Some 300), (''mem_2026-02-18_1'', Some 300)]
   \<and> map (\<lambda>e. (ae_id e, timeValue sampleParse e)) (normalize insertionEngine sampleParse plainNumber sampleInputs) =
       [(''mem_2026-02-18_0'', Some 300), (''mem_2026-02-18_1'', Some 300), (''sess-1'', Some 200),
        (''cron_nightly'', Some 150)]
   \<and> feedOk sampleParse (normalize insertionEngine sampleParse plainNumber sampleInputs)
   \<and> \<not> activityFresh \<lparr>cachedActivity = None, cacheTimestamp = 0\<rparr> 5000
   \<and> fst (getSessionActivity insertionEngine sampleParse plainNumber \<lparr>cachedActivity = None, cacheTimestamp = 0\<rparr>
         5000 sampleInputs) = normalize insertionEngine sampleParse plainNumber sampleInputs"
proof -
  let ?c = "collect plainNumber sampleInputs"
  let ?n = "normalize insertionEngine sampleParse plainNumber sampleInputs"
  let ?cache = "\<lparr>cachedActivity = None, cacheTimestamp = 0\<rparr>"
  have v: "datesValid sampleParse ?c" by code_simp
  have a: "?c ! 0 \<in> set ?c" by code_simp
  have b: "?c ! 1 \<in> set ?c" by code_simp
  have i: "ae_id (?c ! 0) = ae_id (?c ! 1)" by code_simp
  have t: "timeKey sampleParse (?c ! 0) < timeKey sampleParse (?c ! 1)" by code_simp
  have mc: "map (\<lambda>e. (ae_id e, timeValue sampleParse e)) ?c =
       [(''sess-1'', Some 100), (''sess-1'', Some 200), (''cron_nightly'', Some 150),
        (''mem_2026-02-18_0'', Some 300), (''mem_2026-02-18_1'', Some 300)]" by code_simp
  have mn: "map (\<lambda>e. (ae_id e, timeValue sampleParse e)) ?n =
       [(''mem_2026-02-18_0'', Some 300), (''mem_2026-02-18_1'', Some 300), (''sess-1'', Some 200),
        (''cron_nightly'', Some 150)]" by code_simp
  have nf: "\<not> activityFresh ?cache 5000" by code_simp
  note inst = normalize_feed [of plainNumber sampleInputs insertionEngine sampleParse ?cache 5000]
  have ok: "feedOk sampleParse ?n" using inst v by blast
  have "\<forall>a \<in> set ?c. \<forall>b \<in> set ?c.
         ae_id a = ae_id b \<and> timeKey sampleParse a < timeKey sampleParse b \<longrightarrow>
           a \<notin> set ?n \<and> length (filter (\<lambda>k. ae_id k = ae_id a) ?n) = 1"
    using inst v by blast
  then have dr: "?c ! 0 \<notin> set ?n \<and> length (filter (\<lambda>k. ae_id k = ae_id (?c ! 0)) ?n) = 1"
    using a b i t by blast
  have "getSessionActivity insertionEngine sampleParse plainNumber ?cache 5000 sampleInputs =
      (?n, \<lparr>cachedActivity = Some ?n, cacheTimestamp = 5000\<rparr>)"
    using inst nf by blast
  then have g: "fst (getSessionActivity insertionEngine sampleParse plainNumber ?cache 5000 sampleInputs) = ?n"
    by simp
  show ?thesis
    by (intro conjI) (rule v a b i t dr [THEN conjunct1] dr [THEN conjunct2] mc mn ok nf g)+
qed

text \<open>
  C4 fails on the code when a cron job carries a \<open>lastRunAt\<close> that is no date: the
  comparator then yields \<open>NaN\<close>, which the sort reads as \<open>0\<close>, and the order of the
  feed is the engine's. With a session at time 10 and cron jobs at \<open>not a date\<close> and at
  time 40, a sort by insertion finds every neighbour in order and leaves the array as it
  was collected: the feed has the entry of time 10 before the entry of time 40.
\<close>

theorem normalize_bad_date:
  "map (timeValue sampleParse) (collect plainNumber badDateInputs) = [Some 10, None, Some 40]
   \<and> runSort insertionEngine (compareEntries sampleParse) (collect plainNumber badDateInputs)
       = collect plainNumber badDateInputs
   \<and> map ae_id (normalize insertionEngine sampleParse plainNumber badDateInputs)
       = [''a'', ''cron_bad'', ''cron_good'']
   \<and> map (timeValue sampleParse) (normalize insertionEngine sampleParse plainNumber badDateInputs)
       = [Some 10, None, Some 40]
   \<and> \<not> newestFirst sampleParse (normalize insertionEngine sampleParse plainNumber badDateInputs)"
  by code_simp

section \<open>Properties of the memory entries\<close>

declare natStr.simps [simp del]

lemma natStr_digit: "n < 10 \<Longrightarrow> natStr n = [char_of (48 + n)]"
  by (subst natStr.simps) simp

lemma natStr_inj_digit:
  assumes "i < 10" and "j < 10" and "natStr i = natStr j"
  shows "i = j"
proof -
  have "char_of (48 + i) = (char_of (48 + j) :: char)"
    using assms by (simp add: natStr_digit)
  then have "(of_char (char_of (48 + i) :: char) :: nat) = of_char (char_of (48 + j) :: char)"
    by simp
  then show ?thesis using assms(1,2) by simp
qed

lemma memoryEntries_Some:
  "memoryEntries today (Some md) clock =
     map (memoryEntry today clock (headingLines md)) [0..<min (length (headingLines md)) 5]"
  by (simp add: memoryEntries_def headingLines_def Let_def)

lemma memoryEntries_length:
  "length (memoryEntries today (Some md) clock) = min 5 (length (headingLines md))"
  by (simp add: memoryEntries_Some min.commute)

lemma memoryEntries_nth:
  "i < min 5 (length (headingLines md)) \<Longrightarrow>
     memoryEntries today (Some md) clock ! i = memoryEntry today clock (headingLines md) i"
  by (simp add: memoryEntries_Some)

lemma memoryEntries_mem:
  assumes "e \<in> set (memoryEntries today md clock)"
  obtains body i where "md = Some body" and "i < 5"
    and "e = memoryEntry today clock (headingLines body) i"
proof (cases md)
  case None
  then show ?thesis using assms by (simp add: memoryEntries_def)
next
  case (Some body)
  then obtain i where "i < min (length (headingLines body)) 5"
    and "e = memoryEntry today clock (headingLines body) i"
    using assms by (auto simp: memoryEntries_Some)
  then show ?thesis using that [of body i] Some by simp
qed

lemma memory_ids_inj:
  assumes "a \<in> set (memoryEntries today md clock)"
    and "b \<in> set (memoryEntries today md clock)"
    and "ae_id a = ae_id b"
  shows "a = b"
proof -
  obtain ta i where a: "md = Some ta" "i < 5" "a = memoryEntry today clock (headingLines ta) i"
    using assms(1) by (rule memoryEntries_mem)
  obtain tb j where b: "md = Some tb" "j < 5" "b = memoryEntry today clock (headingLines tb) j"
    using assms(2) by (rule memoryEntries_mem)
  have "natStr i = natStr j" using assms(3) a(3) b(3) by (simp add: memoryEntry_def)
  then have "i = j" using natStr_inj_digit [of i j] a(2) b(2) by simp
  then show ?thesis using a b by simp
qed

lemma cronEntries_id: "e \<in> set (cronEntries js) \<Longrightarrow> \<exists>r. ae_id e = ''cron_'' @ r"
  by (induction js) (auto simp: cronEntry_def split: option.splits if_splits)

lemma memory_not_cron:
  assumes "e \<in> set (memoryEntries today md clock)" and "x \<in> set (cronEntries js)"
  shows "ae_id x \<noteq> ae_id e"
proof -
  obtain body i where "e = memoryEntry today clock (headingLines body) i"
    using assms(1) by (rule memoryEntries_mem)
  then have "ae_id e = ''mem_'' @ today @ ''_'' @ natStr i" by (simp add: memoryEntry_def)
  moreover obtain r where "ae_id x = ''cron_'' @ r" using cronEntries_id [OF assms(2)] by blast
  ultimately show ?thesis by simp
qed

lemma memory_entry_kept:
  assumes e: "e \<in> set (memoryEntries (in_today inp) (in_note inp) (in_clock inp))"
    and s: "\<forall>x \<in> set (sessionEntries f (orElse (in_sessions inp) [])). ae_id x \<noteq> ae_id e"
  shows "e \<in> set (normalize E P f inp)
       \<and> length (filter (\<lambda>k. ae_id k = ae_id e) (normalize E P f inp)) = 1"
proof -
  have in_c: "e \<in> set (collect f inp)" using e by (simp add: collect_def)
  have "ae_id e \<in> ae_id ` set (normalize E P f inp)"
    using in_c normalize_ids by blast
  then obtain k where k: "k \<in> set (normalize E P f inp)" and id: "ae_id k = ae_id e"
    by auto
  have "k \<in> set (collect f inp)"
    using k normalize_subset by blast
  then consider "k \<in> set (sessionEntries f (orElse (in_sessions inp) []))"
    | "k \<in> set (cronEntries (orElse (in_jobs inp) []))"
    | "k \<in> set (memoryEntries (in_today inp) (in_note inp) (in_clock inp))"
    by (auto simp: collect_def)
  then have "k = e"
  proof cases
    case 1
    then show ?thesis using s id by blast
  next
    case 2
    then show ?thesis using memory_not_cron [OF e 2] id by simp
  next
    case 3
    then show ?thesis using memory_ids_inj [OF 3 e id] by simp
  qed
  then have "e \<in> set (normalize E P f inp)" using k by simp
  moreover have "distinct (map ae_id (normalize E P f inp))"
    by (rule normalize_distinct)
  ultimately show ?thesis using one_per_id by blast
qed

text \<open>
  C8 (as the code has it). Of the heading lines of the note of the day (the lines that
  start with \<open>## \<close> or \<open>### \<close>) the first five, and only they, become memory entries:
  entry \<open>i\<close> has the id \<open>mem_<today>_<i>\<close>, the time the clock shows when it is built,
  the type \<open>memory\<close> and the heading text as its summary. Without a note there is none.
  Each of them is in the normalized feed, exactly once under its id, unless a session
  entry carries the same id.
\<close>

theorem memory_headings:
  "length (memoryEntries today (Some md) clock) = min 5 (length (headingLines md))
   \<and> (\<forall>i < min 5 (length (headingLines md)).
         memoryEntries today (Some md) clock ! i =
           \<lparr>ae_id = ''mem_'' @ today @ ''_'' @ natStr i,
            ae_timestamp = ISO (clock i),
            ae_type = T_memory,
            ae_channel = C_terminal,
            ae_summary = ''Memory: '' @ stripHashes (headingLines md ! i),
            ae_status = S_success,
            ae_agentId = None,
            ae_tokensUsed = None,
            ae_details = Some (''Source: memory/'' @ today @ ''.md'')\<rparr>)
   \<and> memoryEntries today None clock = []
   \<and> (\<forall>e \<in> set (memoryEntries (in_today inp) (in_note inp) (in_clock inp)).
         (\<forall>x \<in> set (sessionEntries f (orElse (in_sessions inp) [])). ae_id x \<noteq> ae_id e) \<longrightarrow>
           e \<in> set (normalize E P f inp)
           \<and> length (filter (\<lambda>k. ae_id k = ae_id e) (normalize E P f inp)) = 1)"
proof -
  have l: "length (memoryEntries today (Some md) clock) = min 5 (length (headingLines md))"
    by (rule memoryEntries_length)
  have n: "\<forall>i < min 5 (length (headingLines md)).
         memoryEntries today (Some md) clock ! i =
           \<lparr>ae_id = ''mem_'' @ today @ ''_'' @ natStr i,
            ae_timestamp = ISO (clock i),
            ae_type = T_memory,
            ae_channel = C_terminal,
            ae_summary = ''Memory: '' @ stripHashes (headingLines md ! i),
            ae_status = S_success,
            ae_agentId = None,
            ae_tokensUsed = None,
            ae_details = Some (''Source: memory/'' @ today @ ''.md'')\<rparr>"
    by (simp add: memoryEntries_nth memoryEntry_def)
  have z: "memoryEntries today None clock = []"
    by (simp add: memoryEntries_def)
  have k: "\<forall>e \<in> set (memoryEntries (in_today inp) (in_note inp) (in_clock inp)).
         (\<forall>x \<in> set (sessionEntries f (orElse (in_sessions inp) [])). ae_id x \<noteq> ae_id e) \<longrightarrow>
           e \<in> set (normalize E P f inp)
           \<and> length (filter (\<lambda>k. ae_id k = ae_id e) (normalize E P f inp)) = 1"
    using memory_entry_kept by blast
  show ?thesis by (intro conjI) (rule l n z k)+
qed

theorem memory_headings_witness:
  "length (headingLines (the (in_note sampleInputs))) = 2
   \<and> length (memoryEntries (in_today sampleInputs) (in_note sampleInputs) (in_clock sampleInputs)) = 2
   \<and> map ae_summary (memoryEntries (in_today sampleInputs) (in_note sampleInputs) (in_clock sampleInputs))
       = [''Memory: Morning'', ''Memory: Fixes'']
   \<and> memoryEntries (in_today sampleInputs) (in_note sampleInputs) (in_clock sampleInputs) ! 0
       \<in> set (memoryEntries (in_today sampleInputs) (in_note sampleInputs) (in_clock sampleInputs))
   \<and> list_all (\<lambda>x. ae_id x \<noteq> ''mem_2026-02-18_0'')
        (sessionEntries plainNumber (orElse (in_sessions sampleInputs) []))
   \<and> memoryEntries (in_today sampleInputs) (in_note sampleInputs) (in_clock sampleInputs) ! 0
       \<in> set (normalize insertionEngine sampleParse plainNumber sampleInputs)"
proof -
  let ?m = "memoryEntries (in_today sampleInputs) (in_note sampleInputs) (in_clock sampleInputs)"
  have h: "length (headingLines (the (in_note sampleInputs))) = 2" by code_simp
  have l: "length ?m = 2" by code_simp
  have s: "map ae_summary ?m = [''Memory: Morning'', ''Memory: Fixes'']" by code_simp
  have e: "?m ! 0 \<in> set ?m" by code_simp
  have i: "ae_id (?m ! 0) = ''mem_2026-02-18_0''" by code_simp
  have x: "list_all (\<lambda>x. ae_id x \<noteq> ''mem_2026-02-18_0'')
        (sessionEntries plainNumber (orElse (in_sessions sampleInputs) []))" by code_simp
  then have "\<forall>x \<in> set (sessionEntries plainNumber (orElse (in_sessions sampleInputs) [])).
      ae_id x \<noteq> ae_id (?m ! 0)"
    by (simp add: list_all_iff i)
  then have "?m ! 0 \<in> set (normalize insertionEngine sampleParse plainNumber sampleInputs)"
    using memory_headings [of "in_today sampleInputs" "the (in_note sampleInputs)" "in_clock sampleInputs"
        sampleInputs plainNumber insertionEngine sampleParse] e
    by blast
  then show ?thesis using h l s e x by blast
qed

text \<open>
  C8 as stated fails: a note with six headings yields five memory entries, in the
  collected entries and in the normalized feed.
\<close>

theorem memory_headings_counterexample:
  "length (headingLines sixHeadings) = 6
   \<and> length (memoryEntries ''2026-02-18'' (Some sixHeadings) (\<lambda>i. 300)) = 5
   \<and> length (filter (\<lambda>e. ae_type e = T_memory) (normalize insertionEngine sampleParse plainNumber (noteInputs sixHeadings))) = 5"
  by code_simp

end
